theory Spec2Isabelle
  imports Complex_Main "HOL-Library.Word" "HOL-Library.Sublist" "HOL-Library.Log_Nat"
begin

section \<open>The world of the scripts: files, console, network\<close>

text \<open>
  \<^verbatim>\<open>generar_figuras.py\<close> runs top to bottom and talks to the file system, the
  console and the network. These are made explicit: a \<open>world\<close> is threaded through
  every function, and what the outside answers (a server, an archive decoder, the
  optional \<^verbatim>\<open>tensorflow_datasets\<close> package) is a parameter of the model.
  A Python exception is a value of \<open>exn\<close>; a statement either returns with the new
  world or raises with the world it left behind. \<open>LibraryError\<close> stands for an
  exception raised inside the image library, whatever its class.
\<close>

type_synonym path = string
type_synonym bytes = "8 word list"

datatype exn =
    ImportError | URLError | SocketTimeout | ConnectionReset
  | BadZipFile | TarReadError | FileNotFoundError | IndexError
  | ZeroDivisionError | OSError | FileExistsError | NotADirectoryError | LibraryError

text \<open>
  Console output. The scripts print decorated text; an event keeps the values that
  the formatted line is built from.
\<close>

datatype event =
    AlreadyExists path
  | Downloading path
  | Progress nat nat
  | Newline
  | ErrorMsg exn
  | Extracting path
  | LoadingEuroSAT
  | SavedEuroSAT nat
  | TFUnavailable
  | UsingFallback nat

record world =
  files :: "(path \<times> bytes) list"
  dirs :: "path list"
  console :: "event list"
  connections :: "string list"

datatype 'a result = Return 'a world | Raise exn world

definition bind :: "'a result \<Rightarrow> ('a \<Rightarrow> world \<Rightarrow> 'b result) \<Rightarrow> 'b result" where
  "bind r f = (case r of Return a w \<Rightarrow> f a w | Raise e w \<Rightarrow> Raise e w)"

text \<open>What a statement raised, and what it returned.\<close>

fun raised :: "'a result \<Rightarrow> exn option" where
  "raised (Return a w) = None"
| "raised (Raise e w) = Some e"

fun returned :: "'a result \<Rightarrow> 'a option" where
  "returned (Return a w) = Some a"
| "returned (Raise e w) = None"

definition print :: "event \<Rightarrow> world \<Rightarrow> world" where
  "print ev w = w\<lparr>console := console w @ [ev]\<rparr>"

definition joinp :: "path \<Rightarrow> string \<Rightarrow> path" where
  "joinp p q = p @ ''/'' @ q"

text \<open>
  \<^verbatim>\<open>Path.exists()\<close>: a file, a directory that was created, or a directory that
  holds one of them.
\<close>

definition path_exists :: "world \<Rightarrow> path \<Rightarrow> bool" where
  "path_exists w p =
     (let known = map fst (files w) @ dirs w
      in p \<in> set known \<or> list_ex (prefix (p @ ''/'')) known)"

definition read_file :: "world \<Rightarrow> path \<Rightarrow> bytes option" where
  "read_file w p = map_of (files w) p"

definition write_file :: "path \<Rightarrow> bytes \<Rightarrow> world \<Rightarrow> world" where
  "write_file p b w = w\<lparr>files := (p, b) # filter (\<lambda>(q, _). q \<noteq> p) (files w)\<rparr>"

definition append_file :: "path \<Rightarrow> bytes \<Rightarrow> world \<Rightarrow> world" where
  "append_file p b w =
     write_file p ((case read_file w p of None \<Rightarrow> [] | Some old \<Rightarrow> old) @ b) w"

text \<open>The effect of creating a directory: it is there afterwards.\<close>

definition mkdir :: "path \<Rightarrow> world \<Rightarrow> world" where
  "mkdir p w = (if p \<in> set (dirs w) then w else w\<lparr>dirs := dirs w @ [p]\<rparr>)"

text \<open>
  The directory a path lies in: what stands before its last separator, nothing for a
  bare name.
\<close>

definition parent :: "path \<Rightarrow> path" where
  "parent p =
     (if CHR ''/'' \<in> set p then butlast (rev (dropWhile (\<lambda>c. c \<noteq> CHR ''/'') (rev p)))
      else [])"

text \<open>
  \<^verbatim>\<open>Path.is_dir()\<close>: a directory that was created or that holds a known path.
  The directory of the script (\<^verbatim>\<open>.\<close>, and the empty path of a bare name) is
  always there.
\<close>

definition is_dir :: "world \<Rightarrow> path \<Rightarrow> bool" where
  "is_dir w d =
     (d = [] \<or> d = ''.'' \<or> d \<in> set (dirs w)
      \<or> list_ex (prefix (d @ ''/'')) (map fst (files w) @ dirs w))"

text \<open>
  Creating an entry \<open>p\<close> needs the directory it lies in: the operating system answers
  \<^verbatim>\<open>NotADirectoryError\<close> when that is a regular file and
  \<^verbatim>\<open>FileNotFoundError\<close> when it is missing.
\<close>

definition create_error :: "world \<Rightarrow> path \<Rightarrow> exn option" where
  "create_error w p =
     (if parent p \<in> set (map fst (files w)) then Some NotADirectoryError
      else if \<not> is_dir w (parent p) then Some FileNotFoundError
      else None)"

text \<open>
  \<^verbatim>\<open>Path.mkdir(exist_ok=True)\<close> as a statement of the script: nothing happens when
  the directory is there, \<^verbatim>\<open>FileExistsError\<close> when the path is a regular file, and
  otherwise the directory is created if the one above it allows it.
\<close>

definition mkdir_exist_ok :: "path \<Rightarrow> world \<Rightarrow> unit result" where
  "mkdir_exist_ok p w =
     (if is_dir w p then Return () w
      else if p \<in> set (map fst (files w)) then Raise FileExistsError w
      else case create_error w p of
             Some e \<Rightarrow> Raise e w
           | None \<Rightarrow> Return () (mkdir p w))"

subsection \<open>What the outside answers\<close>

text \<open>
  \<^verbatim>\<open>urlopen\<close> raises or hands back a response; each \<^verbatim>\<open>response.read\<close> gives
  the next chunk or raises. After the last chunk of the list, \<^verbatim>\<open>read\<close> gives
  the empty chunk (end of stream).
\<close>

datatype read_result = Chunk bytes | ReadError exn

datatype response = Response (content_length: "nat option") (body: "read_result list")

type_synonym network = "string \<Rightarrow> exn + response"

text \<open>An archive decoder: the members of the archive, or the exception it raises.\<close>

type_synonym archive_reader = "bytes \<Rightarrow> exn + (path \<times> bytes) list"

datatype fallback = Astronaut | Coffee | Grass

record env =
  net :: network
  unzip :: archive_reader
  untar :: archive_reader
  tfds_import :: "exn option"
  tfds_load :: "exn + (bytes \<times> nat) list"
  skimage_data :: "fallback \<Rightarrow> exn + bytes"

subsection \<open>\<^verbatim>\<open>download_file\<close>, \<^verbatim>\<open>extract_zip\<close>, \<^verbatim>\<open>extract_tar_xz\<close>\<close>

text \<open>
  The \<^verbatim>\<open>while True\<close> loop of \<^verbatim>\<open>download_file\<close> (lines 67-75): it ends at
  the empty chunk, writes every other chunk to \<open>dest\<close> and prints the progress when
  the length of the content is known. An exception leaves the loop with what was
  written so far.
\<close>

fun read_all :: "nat \<Rightarrow> path \<Rightarrow> read_result list \<Rightarrow> nat \<Rightarrow> world \<Rightarrow> exn option \<times> world" where
  "read_all total_n dest [] downloaded w = (None, w)"
| "read_all total_n dest (ReadError e # rest) downloaded w = (Some e, w)"
| "read_all total_n dest (Chunk c # rest) downloaded w =
     (if c = [] then (None, w)
      else
        let w1 = append_file dest c w;
            d = downloaded + length c;
            w2 = (if total_n > 0 then print (Progress d total_n) w1 else w1)
        in read_all total_n dest rest d w2)"

text \<open>
  \<^verbatim>\<open>download_file\<close> (lines 53-80). The test \<^verbatim>\<open>dest.exists()\<close> comes before
  the \<^verbatim>\<open>try\<close>; everything after it is inside, and \<^verbatim>\<open>except Exception\<close>
  turns any exception into the printed message and the result \<open>False\<close>.
  \<^verbatim>\<open>open(dest, 'wb')\<close> creates the file empty before the first chunk, or raises
  when the directory of \<open>dest\<close> does not allow it; that is inside the \<^verbatim>\<open>try\<close>
  as well.
\<close>

definition download_file :: "network \<Rightarrow> string \<Rightarrow> path \<Rightarrow> world \<Rightarrow> bool \<times> world" where
  "download_file nw url dest w =
     (if path_exists w dest then (True, print (AlreadyExists dest) w)
      else
        let w1 = print (Downloading dest) w;
            w2 = w1\<lparr>connections := connections w1 @ [url]\<rparr>
        in case nw url of
             Inl e \<Rightarrow> (False, print (ErrorMsg e) w2)
           | Inr resp \<Rightarrow>
               (let total_n = (case content_length resp of None \<Rightarrow> 0 | Some n \<Rightarrow> n)
                in case create_error w2 dest of
                     Some e \<Rightarrow> (False, print (ErrorMsg e) w2)
                   | None \<Rightarrow>
                       (let w3 = write_file dest [] w2
                        in case read_all total_n dest (body resp) 0 w3 of
                             (None, w4) \<Rightarrow> (True, print Newline w4)
                           | (Some e, w4) \<Rightarrow> (False, print (ErrorMsg e) w4))))"

text \<open>
  \<^verbatim>\<open>extractall(out_dir)\<close> writes each member below \<open>out_dir\<close>, with the
  directories on its way; an archive without members leaves the world as it is.
\<close>

definition extractall :: "path \<Rightarrow> (path \<times> bytes) list \<Rightarrow> world \<Rightarrow> world" where
  "extractall out_dir members w =
     fold (\<lambda>(name, b). write_file (joinp out_dir name) b) members w"

text \<open>
  \<^verbatim>\<open>extract_zip\<close> (lines 82-86) and \<^verbatim>\<open>extract_tar_xz\<close> (lines 88-92) have no
  \<^verbatim>\<open>try\<close>: what the decoder raises leaves the function.
\<close>

definition extract_zip :: "archive_reader \<Rightarrow> path \<Rightarrow> path \<Rightarrow> world \<Rightarrow> unit result" where
  "extract_zip dec zip_path out_dir w =
     (let w1 = print (Extracting zip_path) w
      in case read_file w1 zip_path of
           None \<Rightarrow> Raise FileNotFoundError w1
         | Some b \<Rightarrow>
             (case dec b of
                Inl e \<Rightarrow> Raise e w1
              | Inr members \<Rightarrow> Return () (extractall out_dir members w1)))"

definition extract_tar_xz :: "archive_reader \<Rightarrow> path \<Rightarrow> path \<Rightarrow> world \<Rightarrow> unit result" where
  "extract_tar_xz dec tar_path out_dir w =
     (let w1 = print (Extracting tar_path) w
      in case read_file w1 tar_path of
           None \<Rightarrow> Raise FileNotFoundError w1
         | Some b \<Rightarrow>
             (case dec b of
                Inl e \<Rightarrow> Raise e w1
              | Inr members \<Rightarrow> Return () (extractall out_dir members w1)))"

subsection \<open>Dataset acquisition (lines 116-151)\<close>

definition BASE_DIR :: path where
  "BASE_DIR = ''.''"

definition RAW_DIR :: path where
  "RAW_DIR = joinp BASE_DIR ''data_raw''"

definition INDIANA_URL :: string where
  "INDIANA_URL = ''https://data.lhncbc.nlm.nih.gov/public/chest-xray/indiana.zip''"

definition indiana_zip :: path where
  "indiana_zip = joinp RAW_DIR ''indiana.zip''"

definition indiana_dir :: path where
  "indiana_dir = joinp RAW_DIR ''indiana''"

definition MVTEC_URLS :: "(string \<times> string) list" where
  "MVTEC_URLS =
     [(''grid'', ''https://www.mydrive.ch/shares/38536/3830184030e49fe74747669442f0f283/download/420937487-1629959044/grid.tar.xz''),
      (''leather'', ''https://www.mydrive.ch/shares/38536/3830184030e49fe74747669442f0f283/download/420937607-1629959262/leather.tar.xz''),
      (''metal_nut'', ''https://www.mydrive.ch/shares/38536/3830184030e49fe74747669442f0f283/download/420937637-1629959282/metal_nut.tar.xz'')]"

definition mvtec_dir :: path where
  "mvtec_dir = joinp RAW_DIR ''mvtec''"

text \<open>
  Lines 122-124. The statements that follow them (lines 126-133) only list a directory
  and print; they are not part of the model.
\<close>

definition acquire_indiana :: "env \<Rightarrow> world \<Rightarrow> unit result" where
  "acquire_indiana E w =
     (if \<not> path_exists w indiana_dir then
        (case download_file (net E) INDIANA_URL indiana_zip w of
           (True, w1) \<Rightarrow> extract_zip (unzip E) indiana_zip indiana_dir w1
         | (False, w1) \<Rightarrow> Return () w1)
      else Return () w)"

text \<open>The \<^verbatim>\<open>for cat, url in MVTEC_URLS.items()\<close> loop (lines 146-151).\<close>

fun acquire_mvtec :: "env \<Rightarrow> (string \<times> string) list \<Rightarrow> world \<Rightarrow> unit result" where
  "acquire_mvtec E [] w = Return () w"
| "acquire_mvtec E ((cat, url) # rest) w =
     (let tar_path = joinp RAW_DIR (''mvtec_'' @ cat @ ''.tar.xz'');
          cat_dir = joinp mvtec_dir cat
      in bind
           (if \<not> path_exists w cat_dir then
              (case download_file (net E) url tar_path w of
                 (True, w1) \<Rightarrow> extract_tar_xz (untar E) tar_path mvtec_dir w1
               | (False, w1) \<Rightarrow> Return () w1)
            else Return () w)
           (\<lambda>_. acquire_mvtec E rest))"

text \<open>
  The whole stage. \<^verbatim>\<open>mvtec_dir.mkdir(exist_ok=True)\<close> (line 144) stands between
  the two datasets, outside any \<^verbatim>\<open>try\<close>.
\<close>

definition acquire_datasets :: "env \<Rightarrow> world \<Rightarrow> unit result" where
  "acquire_datasets E w =
     bind (acquire_indiana E w)
       (\<lambda>_ w1. bind (mkdir_exist_ok mvtec_dir w1) (\<lambda>_. acquire_mvtec E MVTEC_URLS))"

subsection \<open>The satellite images and their fallback (lines 157-209)\<close>








section \<open>Images and the filter banks\<close>

text \<open>
  A two-dimensional numpy array is a list of rows. A decoded grayscale picture has
  8-bit pixels; after normalisation the intensities are floating-point numbers,
  which are modelled as real numbers: rounding is not part of the model.
\<close>

type_synonym image = "real list list"

definition height :: "'a list list \<Rightarrow> nat" where
  "height x = length x"

definition width :: "'a list list \<Rightarrow> nat" where
  "width x = (case x of [] \<Rightarrow> 0 | row # _ \<Rightarrow> length row)"

definition rect :: "'a list list \<Rightarrow> bool" where
  "rect x = list_all (\<lambda>row. length row = width x) x"

definition pix :: "'a list list \<Rightarrow> nat \<Rightarrow> nat \<Rightarrow> 'a" where
  "pix x i j = x ! i ! j"

definition tabulate2 :: "nat \<Rightarrow> nat \<Rightarrow> (nat \<Rightarrow> nat \<Rightarrow> 'a) \<Rightarrow> 'a list list" where
  "tabulate2 h w f = map (\<lambda>i. map (\<lambda>j. f i j) [0..<w]) [0..<h]"

subsection \<open>Array arithmetic\<close>

text \<open>
  Modelled from the spec: the element-wise operations of numpy, which is not part of
  the repository. They are applied to arrays of one shape only.
\<close>

definition np_add :: "image \<Rightarrow> image \<Rightarrow> image" where
  "np_add a b = map2 (map2 (+)) a b"

definition np_sub :: "image \<Rightarrow> image \<Rightarrow> image" where
  "np_sub a b = map2 (map2 (-)) a b"

definition np_scale :: "image \<Rightarrow> real \<Rightarrow> image" where
  "np_scale a c = map (map (\<lambda>v. v * c)) a"

definition np_abs :: "image \<Rightarrow> image" where
  "np_abs a = map (map abs) a"

definition np_clip :: "image \<Rightarrow> real \<Rightarrow> real \<Rightarrow> image" where
  "np_clip a lo hi = map (map (\<lambda>v. min hi (max lo v))) a"

definition astype_float32 :: "bool list list \<Rightarrow> image" where
  "astype_float32 m = map (map (\<lambda>b. if b then 1 else 0)) m"

text \<open>
  Modelled from the spec: \<^verbatim>\<open>exposure.rescale_intensity\<close> of the image-processing
  library, with the input range taken from the image (its default, and what
  \<^verbatim>\<open>load_gray\<close> asks for). The intensities are clipped to the input range and
  mapped linearly onto the output range; an image of one single intensity is not
  stretched, only clipped to the output range. The image has at least one pixel.
\<close>

definition rescale_intensity :: "image \<Rightarrow> real \<times> real \<Rightarrow> image" where
  "rescale_intensity x out_range =
     (let imin = Min (set (concat x));
          imax = Max (set (concat x));
          omin = fst out_range;
          omax = snd out_range;
          c = np_clip x imin imax
      in if imin \<noteq> imax
         then map (map (\<lambda>v. (v - imin) / (imax - imin) * (omax - omin) + omin)) c
         else np_clip c omin omax)"

subsection \<open>Structuring elements and grey-scale morphology\<close>

text \<open>
  Modelled from the spec: \<^verbatim>\<open>morphology.disk\<close>, the disk-shaped structuring element
  of a given radius: a square mask of side \<open>2 r + 1\<close> that holds the points at
  distance at most \<open>r\<close> from its centre.
\<close>

definition disk :: "nat \<Rightarrow> bool list list" where
  "disk r =
     tabulate2 (2 * r + 1) (2 * r + 1)
       (\<lambda>a b. (int b - int r)\<^sup>2 + (int a - int r)\<^sup>2 \<le> (int r)\<^sup>2)"

text \<open>The points of a mask, as offsets from its centre.\<close>

definition offsets :: "bool list list \<Rightarrow> (int \<times> int) list" where
  "offsets se =
     [(int a - int (height se div 2), int b - int (width se div 2)).
        a \<leftarrow> [0..<height se], b \<leftarrow> [0..<width se], pix se a b]"

text \<open>
  Beyond its border an image is continued by reflection about the edge of its last
  pixel (\<open>d c b a | a b c d | d c b a\<close>), the border mode the library uses by default.
\<close>

definition reflect :: "nat \<Rightarrow> int \<Rightarrow> nat" where
  "reflect n i =
     (let m = i mod (2 * int n)
      in nat (if m < int n then m else 2 * int n - 1 - m))"

definition window :: "'a list list \<Rightarrow> bool list list \<Rightarrow> nat \<Rightarrow> nat \<Rightarrow> 'a list" where
  "window x se i j =
     map (\<lambda>(a, b). pix x (reflect (height x) (int i + a)) (reflect (width x) (int j + b)))
       (offsets se)"

text \<open>
  Modelled from the spec: the morphological operators of the image-processing library
  (\<^verbatim>\<open>skimage.morphology\<close>), which is not part of the repository. Erosion sets a
  pixel to the minimum and dilation to the maximum of the pixels under the structuring
  element centred on it; opening is erosion followed by dilation, closing is dilation
  followed by erosion, and the white top-hat is the image minus its opening. The
  structuring element has at least one point. (\<open>opening_se\<close> is the library's
  \<^verbatim>\<open>opening\<close>, a word that Isabelle reserves.)
\<close>

definition erosion :: "('a::linorder) list list \<Rightarrow> bool list list \<Rightarrow> 'a list list" where
  "erosion x se = tabulate2 (height x) (width x) (\<lambda>i j. Min (set (window x se i j)))"

definition dilation :: "('a::linorder) list list \<Rightarrow> bool list list \<Rightarrow> 'a list list" where
  "dilation x se = tabulate2 (height x) (width x) (\<lambda>i j. Max (set (window x se i j)))"

definition opening_se :: "('a::linorder) list list \<Rightarrow> bool list list \<Rightarrow> 'a list list" where
  "opening_se x se = dilation (erosion x se) se"

definition closing :: "('a::linorder) list list \<Rightarrow> bool list list \<Rightarrow> 'a list list" where
  "closing x se = erosion (dilation x se) se"

definition white_tophat :: "image \<Rightarrow> bool list list \<Rightarrow> image" where
  "white_tophat x se = np_sub x (opening_se x se)"

text \<open>
  The same operators on functions of the position, for the proofs: the positions that
  the structuring element reaches from a pixel, and the least and the greatest value
  over them.
\<close>

definition nbhd :: "nat \<Rightarrow> nat \<Rightarrow> (int \<times> int) set \<Rightarrow> nat \<times> nat \<Rightarrow> (nat \<times> nat) set" where
  "nbhd h w D p = (\<lambda>(a, b). (reflect h (int (fst p) + a), reflect w (int (snd p) + b))) ` D"

definition local_min :: "(nat \<times> nat \<Rightarrow> (nat \<times> nat) set) \<Rightarrow> (nat \<times> nat \<Rightarrow> 'a::linorder) \<Rightarrow> nat \<times> nat \<Rightarrow> 'a" where
  "local_min N g p = Min (g ` N p)"

definition local_max :: "(nat \<times> nat \<Rightarrow> (nat \<times> nat) set) \<Rightarrow> (nat \<times> nat \<Rightarrow> 'a::linorder) \<Rightarrow> nat \<times> nat \<Rightarrow> 'a" where
  "local_max N g p = Max (g ` N p)"

subsection \<open>Division of floating-point numbers\<close>

text \<open>
  \<^verbatim>\<open>load_gray\<close> computes the new sides with Python's \<^verbatim>\<open>/\<close>, which is the
  division of IEEE 754 double precision: the exact quotient rounded to the nearest
  number with a mantissa of 53 bits, ties to the even mantissa. A positive float is
  kept as its mantissa and its binary exponent, \<open>(m, e)\<close> for \<open>m * 2 ^ e\<close>, and
  zero is \<open>(0, 0)\<close>. Exponents are not bounded here: the quotients of two sides of
  an image are far from the largest and the smallest double.
\<close>

type_synonym float64 = "int \<times> int"

definition fval :: "float64 \<Rightarrow> real" where
  "fval f = real_of_int (fst f) * 2 powi snd f"

text \<open>The binary exponent of \<open>p / q\<close>: the \<open>d\<close> with \<open>2 ^ d \<le> p / q < 2 ^ (d + 1)\<close>.\<close>

definition ilog2 :: "int \<Rightarrow> int \<Rightarrow> int" where
  "ilog2 p q =
     (let d = bitlen p - bitlen q
      in if (if 0 \<le> d then q * 2 ^ nat d \<le> p else q \<le> p * 2 ^ nat (- d)) then d
         else d - 1)"

text \<open>
  \<open>fdiv p q t\<close> is the double nearest to \<open>p / q * 2 ^ t\<close>, for \<open>0 \<le> p\<close> and
  \<open>0 < q\<close>: the quotient is scaled into \<open>[2 ^ 52, 2 ^ 53)\<close> and rounded to an
  integer there.
\<close>

definition fdiv :: "int \<Rightarrow> int \<Rightarrow> int \<Rightarrow> float64" where
  "fdiv p q t =
     (if p = 0 then (0, 0)
      else
        let s = 52 - ilog2 p q;
            num = (if 0 \<le> s then p * 2 ^ nat s else p);
            den = (if 0 \<le> s then q else q * 2 ^ nat (- s));
            m0 = num div den;
            r = num mod den;
            m = (if 2 * r < den \<or> (2 * r = den \<and> even m0) then m0 else m0 + 1)
        in (m, t - s))"

text \<open>\<^verbatim>\<open>a / b\<close> for two integers, and \<^verbatim>\<open>k / f\<close> for an integer and a float.\<close>

definition int_div :: "int \<Rightarrow> int \<Rightarrow> float64" where
  "int_div p q = fdiv p q 0"

definition int_div_float :: "int \<Rightarrow> float64 \<Rightarrow> float64" where
  "int_div_float k f = fdiv k (fst f) (- snd f)"

text \<open>\<^verbatim>\<open>int(f)\<close> for a float that is not negative, and the test \<^verbatim>\<open>f > 1.0\<close>.\<close>

definition ftrunc :: "float64 \<Rightarrow> int" where
  "ftrunc f = (if 0 \<le> snd f then fst f * 2 ^ nat (snd f) else fst f div 2 ^ nat (- snd f))"

definition fgt_one :: "float64 \<Rightarrow> bool" where
  "fgt_one f = (if 0 \<le> snd f then 1 < fst f * 2 ^ nat (snd f) else 2 ^ nat (- snd f) < fst f)"

subsection \<open>The library filters that stay abstract\<close>

text \<open>
  The smoothing, rank, gradient, edge and resampling filters of the library are
  parameters of the model: \<^verbatim>\<open>gaussian(x, sigma, preserve_range)\<close>,
  \<^verbatim>\<open>median(x, footprint)\<close>, \<^verbatim>\<open>sobel(x)\<close>, \<^verbatim>\<open>laplace(x)\<close>,
  \<^verbatim>\<open>canny(x, sigma)\<close>, which gives a mask of truth values, and
  \<^verbatim>\<open>resize(x, (new_h, new_w), anti_aliasing=True, preserve_range=True)\<close>, which
  gives an array or raises.
\<close>

record skimage =
  gaussian :: "image \<Rightarrow> real \<Rightarrow> bool \<Rightarrow> image"
  median :: "image \<Rightarrow> bool list list \<Rightarrow> image"
  sobel :: "image \<Rightarrow> image"
  laplace :: "image \<Rightarrow> image"
  canny :: "image \<Rightarrow> real \<Rightarrow> bool list list"
  resize :: "image \<Rightarrow> nat \<times> nat \<Rightarrow> exn + image"

text \<open>
  What the functions of the library do about shapes and ranges: a filter gives an
  array of the shape of its input; \<^verbatim>\<open>resize\<close> raises when one of the sides asked
  for is zero, and otherwise gives an array of the shape asked for whose intensities
  stay within the range of the input (its \<^verbatim>\<open>clip\<close> option, on by default).
\<close>

definition same_shape :: "'a list list \<Rightarrow> 'b list list \<Rightarrow> bool" where
  "same_shape y x = (map length y = map length x)"

definition filters_keep_shape :: "skimage \<Rightarrow> bool" where
  "filters_keep_shape L =
     (\<forall>x. rect x \<longrightarrow>
        (\<forall>s p. same_shape (gaussian L x s p) x)
        \<and> (\<forall>se. same_shape (median L x se) x)
        \<and> same_shape (sobel L x) x
        \<and> same_shape (laplace L x) x
        \<and> (\<forall>s. same_shape (canny L x s) x))"

definition resize_contract :: "skimage \<Rightarrow> bool" where
  "resize_contract L =
     (\<forall>x nh nw. concat x \<noteq> [] \<longrightarrow>
        (if nh = 0 \<or> nw = 0 then isl (resize L x (nh, nw))
         else \<exists>y. resize L x (nh, nw) = Inr y
                \<and> height y = nh
                \<and> list_all (\<lambda>row. length row = nw) y
                \<and> list_all (list_all (\<lambda>v. Min (set (concat x)) \<le> v \<and> v \<le> Max (set (concat x)))) y))"

text \<open>
  On an image of one single intensity the filters of the library are known exactly: a
  blur or a median of it is the image itself, its gradient and its Laplacian vanish, it
  has no edge, and resizing it gives the same intensity in the shape asked for, or
  raises when that shape has no pixel.
  \<open>flat_skimage\<close> holds these values; it is applied to such images only.
\<close>

definition flat_skimage :: skimage where
  "flat_skimage =
     \<lparr> gaussian = (\<lambda>x s p. x),
       median = (\<lambda>x se. x),
       sobel = (\<lambda>x. map (map (\<lambda>v. 0)) x),
       laplace = (\<lambda>x. map (map (\<lambda>v. 0)) x),
       canny = (\<lambda>x s. map (map (\<lambda>v. False)) x),
       resize = (\<lambda>x (nh, nw).
          if nh = 0 \<or> nw = 0 then Inl LibraryError
          else Inr (replicate nh (replicate nw (hd (concat x))))) \<rparr>"

subsection \<open>\<^verbatim>\<open>generar_figuras.py\<close>: \<^verbatim>\<open>load_gray\<close> and the three banks\<close>

text \<open>
  \<^verbatim>\<open>load_gray\<close> (lines 269-279), from the decoded 8-bit grayscale array on. The
  division by \<^verbatim>\<open>max_side\<close> raises when it is zero; \<open>scale\<close> and the two
  quotients by it are floats, \<^verbatim>\<open>int\<close> truncates, and what \<^verbatim>\<open>resize\<close> raises
  leaves the function.
\<close>

definition load_gray :: "skimage \<Rightarrow> 8 word list list \<Rightarrow> nat \<Rightarrow> exn + image" where
  "load_gray L arr max_side =
     (let x = map (map (\<lambda>v. real (unat v) / 255)) arr;
          x = rescale_intensity x (0, 1);
          h = height x;
          w = width x
      in if max_side = 0 then Inl ZeroDivisionError
         else
           let scale = int_div (int (max h w)) (int max_side)
           in if fgt_one scale then
                (let new_h = nat (ftrunc (int_div_float (int h) scale));
                     new_w = nat (ftrunc (int_div_float (int w) scale))
                 in resize L x (new_h, new_w))
              else Inr x)"

text \<open>A dictionary literal is the list of its items, in the order written.\<close>

definition spatial_filters :: "skimage \<Rightarrow> image \<Rightarrow> (string \<times> image) list" where
  "spatial_filters L x =
     [(''gaussian_s1'', gaussian L x 1 True),
      (''gaussian_s2'', gaussian L x 2 True),
      (''median_r2'', median L x (disk 2)),
      (''median_r4'', median L x (disk 4)),
      (''unsharp_r1_a1'', np_clip (np_add x (np_scale (np_sub x (gaussian L x 1 False)) 1)) 0 1),
      (''sobel'', rescale_intensity (sobel L x) (0, 1)),
      (''laplace'', rescale_intensity (np_abs (laplace L x)) (0, 1)),
      (''canny_s12'', astype_float32 (canny L x (6 / 5)))]"

text \<open>The decimal digits of a number, as \<^verbatim>\<open>{r}\<close> formats it in an f-string.\<close>

fun str_nat :: "nat \<Rightarrow> string" where
  "str_nat n =
     (if n < 10 then [''0123456789'' ! n]
      else str_nat (n div 10) @ [''0123456789'' ! (n mod 10)])"

declare str_nat.simps [simp del]


definition morph_filters :: "image \<Rightarrow> nat \<Rightarrow> (string \<times> image) list" where
  "morph_filters x r =
     (let se = disk r
      in [(''opening_r'' @ str_nat r, opening_se x se),
          (''closing_r'' @ str_nat r, closing x se),
          (''tophat_r'' @ str_nat r, white_tophat x se),
          (''erosion_r'' @ str_nat r, erosion x se),
          (''dilation_r'' @ str_nat r, dilation x se)])"

definition pipelines :: "skimage \<Rightarrow> image \<Rightarrow> (string \<times> image) list" where
  "pipelines L x =
     (let den = median L x (disk 3);
          p1 = np_clip (np_add den (np_scale (np_sub den (gaussian L den (3 / 2) False)) (6 / 5))) 0 1;
          p2 = opening_se (closing x (disk 3)) (disk 3)
      in [(''P1_med3+unsharp'', p1),
          (''P2_close+open'', p2)])"

subsection \<open>\<^verbatim>\<open>scripts/regenerar_figuras_eurosat.py\<close>: the same four functions again\<close>

definition load_gray_regen :: "skimage \<Rightarrow> 8 word list list \<Rightarrow> nat \<Rightarrow> exn + image" where
  "load_gray_regen L arr max_side =
     (let x = map (map (\<lambda>v. real (unat v) / 255)) arr;
          x = rescale_intensity x (0, 1);
          h = height x;
          w = width x
      in if max_side = 0 then Inl ZeroDivisionError
         else
           let scale = int_div (int (max h w)) (int max_side)
           in if fgt_one scale then
                (let new_h = nat (ftrunc (int_div_float (int h) scale));
                     new_w = nat (ftrunc (int_div_float (int w) scale))
                 in resize L x (new_h, new_w))
              else Inr x)"

definition spatial_filters_regen :: "skimage \<Rightarrow> image \<Rightarrow> (string \<times> image) list" where
  "spatial_filters_regen L x =
     [(''gaussian_s1'', gaussian L x 1 True),
      (''gaussian_s2'', gaussian L x 2 True),
      (''median_r2'', median L x (disk 2)),
      (''median_r4'', median L x (disk 4)),
      (''unsharp_r1_a1'', np_clip (np_add x (np_scale (np_sub x (gaussian L x 1 False)) 1)) 0 1),
      (''sobel'', rescale_intensity (sobel L x) (0, 1)),
      (''laplace'', rescale_intensity (np_abs (laplace L x)) (0, 1)),
      (''canny_s12'', astype_float32 (canny L x (6 / 5)))]"

definition morph_filters_regen :: "image \<Rightarrow> nat \<Rightarrow> (string \<times> image) list" where
  "morph_filters_regen x r =
     (let se = disk r
      in [(''opening_r'' @ str_nat r, opening_se x se),
          (''closing_r'' @ str_nat r, closing x se),
          (''tophat_r'' @ str_nat r, white_tophat x se),
          (''erosion_r'' @ str_nat r, erosion x se),
          (''dilation_r'' @ str_nat r, dilation x se)])"

definition pipelines_regen :: "skimage \<Rightarrow> image \<Rightarrow> (string \<times> image) list" where
  "pipelines_regen L x =
     (let den = median L x (disk 3);
          p1 = np_clip (np_add den (np_scale (np_sub den (gaussian L den (3 / 2) False)) (6 / 5))) 0 1;
          p2 = opening_se (closing x (disk 3)) (disk 3)
      in [(''P1_med3+unsharp'', p1),
          (''P2_close+open'', p2)])"

subsection \<open>The pipelines as the specification words them\<close>

text \<open>
  Section 4.3 of the specification: median denoising with a disk, unsharp masking
  (the image plus a multiple of what a blur removes from it, kept within \<open>[0, 1]\<close>),
  and the two compositions.
\<close>

definition median_denoise :: "skimage \<Rightarrow> nat \<Rightarrow> image \<Rightarrow> image" where
  "median_denoise L r x = median L x (disk r)"

definition unsharp_mask :: "skimage \<Rightarrow> real \<Rightarrow> real \<Rightarrow> image \<Rightarrow> image" where
  "unsharp_mask L radius amount x =
     np_clip (np_add x (np_scale (np_sub x (gaussian L x radius False)) amount)) 0 1"

definition P1_spec :: "skimage \<Rightarrow> image \<Rightarrow> image" where
  "P1_spec L x = unsharp_mask L (3 / 2) (6 / 5) (median_denoise L 3 x)"

definition P2_spec :: "image \<Rightarrow> image" where
  "P2_spec x = opening_se (closing x (disk 3)) (disk 3)"

subsection \<open>Value ranges\<close>

definition in_unit :: "image \<Rightarrow> bool" where
  "in_unit y = list_all (list_all (\<lambda>v. 0 \<le> v \<and> v \<le> 1)) y"

definition spans_unit :: "image \<Rightarrow> bool" where
  "spans_unit y = (in_unit y \<and> 0 \<in> set (concat y) \<and> 1 \<in> set (concat y))"

definition binary :: "image \<Rightarrow> bool" where
  "binary y = list_all (list_all (\<lambda>v. v = 0 \<or> v = 1)) y"

text \<open>An image of one single intensity (or without any pixel).\<close>

definition flat :: "image \<Rightarrow> bool" where
  "flat a = (card (set (concat a)) \<le> 1)"

section \<open>Properties of the acquisition stage\<close>

lemma print_files [simp]: "files (print ev w) = files w"
  by (simp add: print_def)

lemma print_dirs [simp]: "dirs (print ev w) = dirs w"
  by (simp add: print_def)

lemma print_connections [simp]: "connections (print ev w) = connections w"
  by (simp add: print_def)

text \<open>
  C10. When the destination exists, \<open>download_file\<close> answers \<open>True\<close> at once: no
  connection is opened, no file or directory changes, and the only effect is the line
  printed. So whenever \<open>download_file\<close> changes the files or opens a connection, the
  destination did not exist before.
\<close>

theorem download_file_existing:
  "(path_exists w dest \<longrightarrow>
      download_file nw url dest w = (True, print (AlreadyExists dest) w)
      \<and> files (snd (download_file nw url dest w)) = files w
      \<and> dirs (snd (download_file nw url dest w)) = dirs w
      \<and> connections (snd (download_file nw url dest w)) = connections w)
   \<and> (files (snd (download_file nw url dest w)) \<noteq> files w
        \<or> connections (snd (download_file nw url dest w)) \<noteq> connections w
      \<longrightarrow> \<not> path_exists w dest)"
  by (auto simp: download_file_def)

theorem download_file_existing_witness:
  "path_exists \<lparr>files = [(''a.zip'', [1, 2])], dirs = [], console = [], connections = []\<rparr> ''a.zip''
   \<and> download_file (\<lambda>u. Inr (Response (Some 1) [Chunk [7]])) ''http://h/a.zip'' ''a.zip''
        \<lparr>files = [(''a.zip'', [1, 2])], dirs = [], console = [], connections = []\<rparr>
      = (True, \<lparr>files = [(''a.zip'', [1, 2])], dirs = [],
                console = [AlreadyExists ''a.zip''], connections = []\<rparr>)
   \<and> files (snd (download_file (\<lambda>u. Inr (Response (Some 1) [Chunk [7]])) ''http://h/b.zip'' ''b.zip''
        \<lparr>files = [(''a.zip'', [1, 2])], dirs = [], console = [], connections = []\<rparr>))
      = [(''b.zip'', [7]), (''a.zip'', [1, 2])]
   \<and> \<not> path_exists \<lparr>files = [(''a.zip'', [1, 2])], dirs = [], console = [], connections = []\<rparr> ''b.zip''"
  using download_file_existing
    [of "\<lparr>files = [(''a.zip'', [1, 2])], dirs = [], console = [], connections = []\<rparr>" "''a.zip''"
        "\<lambda>u. Inr (Response (Some 1) [Chunk [7]])" "''http://h/a.zip''"]
    download_file_existing
    [of "\<lparr>files = [(''a.zip'', [1, 2])], dirs = [], console = [], connections = []\<rparr>" "''b.zip''"
        "\<lambda>u. Inr (Response (Some 1) [Chunk [7]])" "''http://h/b.zip''"]
  by (simp add: path_exists_def download_file_def print_def write_file_def append_file_def
      read_file_def create_error_def parent_def is_dir_def)

subsection \<open>Failures of the network and of the archives\<close>

lemma read_all_error:
  "[] \<notin> set cs \<Longrightarrow>
   fst (read_all t dest (map Chunk cs @ ReadError e # rest) d w) = Some e"
  by (induction cs arbitrary: d w) (auto simp: Let_def)

lemma create_error_print [simp]:
  "create_error (print ev w\<lparr>connections := c\<rparr>) p = create_error w p"
  by (simp add: create_error_def is_dir_def print_def)

lemma download_file_false_printed:
  "\<not> fst (download_file nw url dest w) \<Longrightarrow>
   \<exists>e. console (snd (download_file nw url dest w)) \<noteq> []
     \<and> last (console (snd (download_file nw url dest w))) = ErrorMsg e"
  by (auto simp: download_file_def Let_def print_def
      split: sum.splits prod.splits option.splits if_splits)

lemma download_file_refused:
  "\<not> path_exists w dest \<Longrightarrow> nw url = Inl e \<Longrightarrow>
   download_file nw url dest w =
     (False, w\<lparr>console := console w @ [Downloading dest, ErrorMsg e],
               connections := connections w @ [url]\<rparr>)"
  by (simp add: download_file_def Let_def print_def)

lemma download_file_no_directory:
  "\<not> path_exists w dest \<Longrightarrow> nw url = Inr resp \<Longrightarrow> create_error w dest = Some e \<Longrightarrow>
   download_file nw url dest w =
     (False, w\<lparr>console := console w @ [Downloading dest, ErrorMsg e],
               connections := connections w @ [url]\<rparr>)"
  by (simp add: download_file_def Let_def) (simp add: print_def)

lemma download_file_broken:
  "\<not> path_exists w dest \<Longrightarrow> create_error w dest = None \<Longrightarrow>
   nw url = Inr (Response cl (map Chunk cs @ ReadError e # rest)) \<Longrightarrow>
   [] \<notin> set cs \<Longrightarrow>
   \<not> fst (download_file nw url dest w)
   \<and> last (console (snd (download_file nw url dest w))) = ErrorMsg e"
  using read_all_error [of cs "case cl of None \<Rightarrow> 0 | Some n \<Rightarrow> n" dest e rest 0
      "write_file dest []
         (print (Downloading dest) w
            \<lparr>connections := connections (print (Downloading dest) w) @ [url]\<rparr>)"]
  by (auto simp: download_file_def Let_def split: prod.splits option.splits)
    (simp_all add: print_def)

lemma acquire_indiana_continues:
  "\<not> fst (download_file (net E) INDIANA_URL indiana_zip w) \<Longrightarrow>
   returned (acquire_indiana E w) = Some ()"
  by (auto simp: acquire_indiana_def split: prod.splits)

lemma acquire_mvtec_continues:
  "\<not> path_exists w (joinp mvtec_dir cat) \<Longrightarrow>
   \<not> fst (download_file (net E) url (joinp RAW_DIR (''mvtec_'' @ cat @ ''.tar.xz'')) w) \<Longrightarrow>
   acquire_mvtec E ((cat, url) # rest) w =
     acquire_mvtec E rest
       (snd (download_file (net E) url (joinp RAW_DIR (''mvtec_'' @ cat @ ''.tar.xz'')) w))"
  by (auto simp: Let_def bind_def split: prod.splits)

lemma extract_zip_raise:
  "read_file w zip_path = Some b \<Longrightarrow> dec b = Inl e \<Longrightarrow>
   extract_zip dec zip_path out_dir w = Raise e (print (Extracting zip_path) w)"
  by (simp add: extract_zip_def Let_def read_file_def)

lemma extract_tar_xz_raise:
  "read_file w tar_path = Some b \<Longrightarrow> dec b = Inl e \<Longrightarrow>
   extract_tar_xz dec tar_path out_dir w = Raise e (print (Extracting tar_path) w)"
  by (simp add: extract_tar_xz_def Let_def read_file_def)

lemma acquire_datasets_zip_raise:
  "\<not> path_exists w indiana_dir \<Longrightarrow>
   download_file (net E) INDIANA_URL indiana_zip w = (True, w1) \<Longrightarrow>
   read_file w1 indiana_zip = Some b \<Longrightarrow> unzip E b = Inl e \<Longrightarrow>
   acquire_datasets E w = Raise e (print (Extracting indiana_zip) w1)"
  by (simp add: acquire_datasets_def acquire_indiana_def bind_def extract_zip_raise)

lemma acquire_mvtec_tar_raise:
  "\<not> path_exists w (joinp mvtec_dir cat) \<Longrightarrow>
   download_file (net E) url (joinp RAW_DIR (''mvtec_'' @ cat @ ''.tar.xz'')) w = (True, w1) \<Longrightarrow>
   read_file w1 (joinp RAW_DIR (''mvtec_'' @ cat @ ''.tar.xz'')) = Some b \<Longrightarrow>
   untar E b = Inl e \<Longrightarrow>
   acquire_mvtec E ((cat, url) # rest) w =
     Raise e (print (Extracting (joinp RAW_DIR (''mvtec_'' @ cat @ ''.tar.xz''))) w1)"
  by (simp add: Let_def bind_def extract_tar_xz_raise)

lemma bind_assoc: "bind (bind r f) g = bind r (\<lambda>a w. bind (f a w) g)"
  by (cases r) (simp_all add: bind_def)

lemma acquire_mvtec_append:
  "acquire_mvtec E (pre @ rest) w = bind (acquire_mvtec E pre w) (\<lambda>_. acquire_mvtec E rest)"
proof (induction pre arbitrary: w)
  case Nil
  show ?case by (simp add: bind_def)
next
  case (Cons a pre)
  obtain cat url where a: "a = (cat, url)" by (cases a)
  have ih: "acquire_mvtec E (pre @ rest) =
      (\<lambda>w. bind (acquire_mvtec E pre w) (\<lambda>_. acquire_mvtec E rest))"
    by (rule ext) (rule Cons)
  show ?case
    unfolding a by (simp add: Let_def bind_assoc ih)
qed

lemma acquire_datasets_tar_raise:
  assumes "acquire_indiana E z = Return () z1"
    and "mkdir_exist_ok mvtec_dir z1 = Return () z2"
    and "MVTEC_URLS = pre @ (cat, url) # rest"
    and "acquire_mvtec E pre z2 = Return () y"
    and "\<not> path_exists y (joinp mvtec_dir cat)"
    and "download_file (net E) url (joinp RAW_DIR (''mvtec_'' @ cat @ ''.tar.xz'')) y = (True, y1)"
    and "read_file y1 (joinp RAW_DIR (''mvtec_'' @ cat @ ''.tar.xz'')) = Some b"
    and "untar E b = Inl e"
  shows "acquire_datasets E z =
     Raise e (print (Extracting (joinp RAW_DIR (''mvtec_'' @ cat @ ''.tar.xz''))) y1)"
proof -
  have "acquire_datasets E z = acquire_mvtec E (pre @ (cat, url) # rest) z2"
    using assms(1,2,3) by (simp add: acquire_datasets_def bind_def)
  also have "\<dots> = acquire_mvtec E ((cat, url) # rest) y"
    using assms(4) by (simp only: acquire_mvtec_append) (simp add: bind_def)
  also have "\<dots> = Raise e (print (Extracting (joinp RAW_DIR (''mvtec_'' @ cat @ ''.tar.xz''))) y1)"
    using assms(5-8) by (rule acquire_mvtec_tar_raise)
  finally show ?thesis .
qed

text \<open>
  C2, as the code has it. A failure of the network inside \<open>download_file\<close> (the
  connection refused, or a read that raises after some chunks) is caught: the error
  is the last line printed and the answer is \<open>False\<close>. The statement that asked for
  the download then returns without extracting, and the loop over the categories goes
  on with the next one. A failure of the extraction is not caught: when the archive
  is there and its decoder raises, in \<open>extract_zip\<close> or in \<open>extract_tar_xz\<close> for
  any of the categories, the whole acquisition ends with that exception.
\<close>

theorem network_failures_caught:
  "(\<not> path_exists w dest
      \<and> (nw url = Inl e
           \<or> (create_error w dest = None
               \<and> (\<exists>cl cs rest. nw url = Inr (Response cl (map Chunk cs @ ReadError e # rest))
                     \<and> [] \<notin> set cs)))
     \<longrightarrow> \<not> fst (download_file nw url dest w)
         \<and> last (console (snd (download_file nw url dest w))) = ErrorMsg e)
   \<and> (\<not> fst (download_file (net E) INDIANA_URL indiana_zip v)
        \<longrightarrow> returned (acquire_indiana E v) = Some ())
   \<and> (\<not> path_exists v (joinp mvtec_dir cat)
        \<and> \<not> fst (download_file (net E) u (joinp RAW_DIR (''mvtec_'' @ cat @ ''.tar.xz'')) v)
        \<longrightarrow> acquire_mvtec E ((cat, u) # urls) v =
              acquire_mvtec E urls
                (snd (download_file (net E) u (joinp RAW_DIR (''mvtec_'' @ cat @ ''.tar.xz'')) v)))
   \<and> (\<not> path_exists x indiana_dir
        \<and> download_file (net E) INDIANA_URL indiana_zip x = (True, x1)
        \<and> read_file x1 indiana_zip = Some b \<and> unzip E b = Inl e1
        \<longrightarrow> acquire_datasets E x = Raise e1 (print (Extracting indiana_zip) x1))
   \<and> (acquire_indiana E z = Return () z1
        \<and> mkdir_exist_ok mvtec_dir z1 = Return () z2
        \<and> MVTEC_URLS = pre @ (k, a) # rest
        \<and> acquire_mvtec E pre z2 = Return () y
        \<and> \<not> path_exists y (joinp mvtec_dir k)
        \<and> download_file (net E) a (joinp RAW_DIR (''mvtec_'' @ k @ ''.tar.xz'')) y = (True, y1)
        \<and> read_file y1 (joinp RAW_DIR (''mvtec_'' @ k @ ''.tar.xz'')) = Some c
        \<and> untar E c = Inl e2
        \<longrightarrow> acquire_datasets E z =
              Raise e2 (print (Extracting (joinp RAW_DIR (''mvtec_'' @ k @ ''.tar.xz''))) y1))"
proof (intro conjI impI)
  assume a: "\<not> path_exists w dest
      \<and> (nw url = Inl e
           \<or> (create_error w dest = None
               \<and> (\<exists>cl cs rest. nw url = Inr (Response cl (map Chunk cs @ ReadError e # rest))
                     \<and> [] \<notin> set cs)))"
  then show "\<not> fst (download_file nw url dest w)"
    using download_file_refused [of w dest nw url e] download_file_broken [of w dest nw url]
    by auto
  from a show "last (console (snd (download_file nw url dest w))) = ErrorMsg e"
    using download_file_refused [of w dest nw url e] download_file_broken [of w dest nw url]
    by auto
next
  assume "\<not> fst (download_file (net E) INDIANA_URL indiana_zip v)"
  then show "returned (acquire_indiana E v) = Some ()"
    by (rule acquire_indiana_continues)
next
  assume "\<not> path_exists v (joinp mvtec_dir cat)
        \<and> \<not> fst (download_file (net E) u (joinp RAW_DIR (''mvtec_'' @ cat @ ''.tar.xz'')) v)"
  then show "acquire_mvtec E ((cat, u) # urls) v =
              acquire_mvtec E urls
                (snd (download_file (net E) u (joinp RAW_DIR (''mvtec_'' @ cat @ ''.tar.xz'')) v))"
    using acquire_mvtec_continues by blast
next
  assume "\<not> path_exists x indiana_dir
        \<and> download_file (net E) INDIANA_URL indiana_zip x = (True, x1)
        \<and> read_file x1 indiana_zip = Some b \<and> unzip E b = Inl e1"
  then show "acquire_datasets E x = Raise e1 (print (Extracting indiana_zip) x1)"
    using acquire_datasets_zip_raise by blast
next
  assume "acquire_indiana E z = Return () z1
        \<and> mkdir_exist_ok mvtec_dir z1 = Return () z2
        \<and> MVTEC_URLS = pre @ (k, a) # rest
        \<and> acquire_mvtec E pre z2 = Return () y
        \<and> \<not> path_exists y (joinp mvtec_dir k)
        \<and> download_file (net E) a (joinp RAW_DIR (''mvtec_'' @ k @ ''.tar.xz'')) y = (True, y1)
        \<and> read_file y1 (joinp RAW_DIR (''mvtec_'' @ k @ ''.tar.xz'')) = Some c
        \<and> untar E c = Inl e2"
  then show "acquire_datasets E z =
              Raise e2 (print (Extracting (joinp RAW_DIR (''mvtec_'' @ k @ ''.tar.xz''))) y1)"
    using acquire_datasets_tar_raise by blast
qed

theorem network_failures_caught_witness:
  "\<not> path_exists \<lparr>files = [], dirs = [''./data_raw''], console = [], connections = []\<rparr>
       ''./data_raw/indiana.zip''
   \<and> create_error \<lparr>files = [], dirs = [''./data_raw''], console = [], connections = []\<rparr>
       ''./data_raw/indiana.zip'' = None
   \<and> download_file (\<lambda>u. Inl URLError) ''http://h/a.zip'' ''./data_raw/indiana.zip''
        \<lparr>files = [], dirs = [''./data_raw''], console = [], connections = []\<rparr>
      = (False, \<lparr>files = [], dirs = [''./data_raw''],
           console = [Downloading ''./data_raw/indiana.zip'', ErrorMsg URLError],
           connections = [''http://h/a.zip'']\<rparr>)
   \<and> download_file (\<lambda>u. Inr (Response (Some 2) [Chunk [1], ReadError ConnectionReset]))
        ''http://h/a.zip'' ''./data_raw/indiana.zip''
        \<lparr>files = [], dirs = [''./data_raw''], console = [], connections = []\<rparr>
      = (False, \<lparr>files = [(''./data_raw/indiana.zip'', [1])], dirs = [''./data_raw''],
           console = [Downloading ''./data_raw/indiana.zip'', Progress 1 2,
                      ErrorMsg ConnectionReset],
           connections = [''http://h/a.zip'']\<rparr>)
   \<and> \<not> fst (download_file (\<lambda>u. Inl URLError) ''http://h/a.zip'' ''./data_raw/indiana.zip''
        \<lparr>files = [], dirs = [''./data_raw''], console = [], connections = []\<rparr>)
   \<and> last (console (snd (download_file (\<lambda>u. Inl URLError) ''http://h/a.zip''
        ''./data_raw/indiana.zip''
        \<lparr>files = [], dirs = [''./data_raw''], console = [], connections = []\<rparr>)))
      = ErrorMsg URLError
   \<and> \<not> fst (download_file (\<lambda>u. Inr (Response (Some 2) [Chunk [1], ReadError ConnectionReset]))
        ''http://h/a.zip'' ''./data_raw/indiana.zip''
        \<lparr>files = [], dirs = [''./data_raw''], console = [], connections = []\<rparr>)
   \<and> last (console (snd (download_file
        (\<lambda>u. Inr (Response (Some 2) [Chunk [1], ReadError ConnectionReset]))
        ''http://h/a.zip'' ''./data_raw/indiana.zip''
        \<lparr>files = [], dirs = [''./data_raw''], console = [], connections = []\<rparr>)))
      = ErrorMsg ConnectionReset
   \<and> returned (acquire_indiana
         \<lparr>net = (\<lambda>u. Inl URLError), unzip = (\<lambda>b. Inl BadZipFile),
          untar = (\<lambda>b. Inl TarReadError), tfds_import = None, tfds_load = Inr [],
          skimage_data = (\<lambda>f. Inr [])\<rparr>
         \<lparr>files = [], dirs = [''./data_raw''], console = [], connections = []\<rparr>) = Some ()
   \<and> acquire_mvtec
         \<lparr>net = (\<lambda>u. Inl URLError), unzip = (\<lambda>b. Inl BadZipFile),
          untar = (\<lambda>b. Inl TarReadError), tfds_import = None, tfds_load = Inr [],
          skimage_data = (\<lambda>f. Inr [])\<rparr>
         [(''grid'', ''http://h/grid''), (''leather'', ''http://h/leather'')]
         \<lparr>files = [], dirs = [''./data_raw''], console = [], connections = []\<rparr>
      = Return ()
          \<lparr>files = [], dirs = [''./data_raw''],
           console = [Downloading ''./data_raw/mvtec_grid.tar.xz'', ErrorMsg URLError,
                      Downloading ''./data_raw/mvtec_leather.tar.xz'', ErrorMsg URLError],
           connections = [''http://h/grid'', ''http://h/leather'']\<rparr>
   \<and> acquire_datasets
         \<lparr>net = (\<lambda>u. Inl URLError), unzip = (\<lambda>b. Inl BadZipFile),
          untar = (\<lambda>b. Inl TarReadError), tfds_import = None, tfds_load = Inr [],
          skimage_data = (\<lambda>f. Inr [])\<rparr>
         \<lparr>files = [(''./data_raw/indiana.zip'', [1])], dirs = [''./data_raw''],
          console = [], connections = []\<rparr>
      = Raise BadZipFile
          \<lparr>files = [(''./data_raw/indiana.zip'', [1])], dirs = [''./data_raw''],
           console = [AlreadyExists ''./data_raw/indiana.zip'',
                      Extracting ''./data_raw/indiana.zip''],
           connections = []\<rparr>
   \<and> acquire_datasets
         \<lparr>net = (\<lambda>u. Inl URLError), unzip = (\<lambda>b. Inl BadZipFile),
          untar = (\<lambda>b. Inl TarReadError), tfds_import = None, tfds_load = Inr [],
          skimage_data = (\<lambda>f. Inr [])\<rparr>
         \<lparr>files = [(''./data_raw/mvtec_grid.tar.xz'', [1])],
          dirs = [''./data_raw'', ''./data_raw/mvtec''], console = [], connections = []\<rparr>
      = Raise TarReadError
          \<lparr>files = [(''./data_raw/mvtec_grid.tar.xz'', [1])],
           dirs = [''./data_raw'', ''./data_raw/mvtec''],
           console = [Downloading ''./data_raw/indiana.zip'', ErrorMsg URLError,
                      AlreadyExists ''./data_raw/mvtec_grid.tar.xz'',
                      Extracting ''./data_raw/mvtec_grid.tar.xz''],
           connections = [INDIANA_URL]\<rparr>"
proof -
  let ?W = "\<lparr>files = [], dirs = [''./data_raw''], console = [], connections = []\<rparr>"
  let ?X = "\<lparr>files = [(''./data_raw/indiana.zip'', [1])], dirs = [''./data_raw''],
          console = [], connections = []\<rparr>"
  let ?Y = "\<lparr>files = [(''./data_raw/mvtec_grid.tar.xz'', [1])],
          dirs = [''./data_raw'', ''./data_raw/mvtec''], console = [], connections = []\<rparr>"
  let ?E = "\<lparr>net = (\<lambda>u. Inl URLError), unzip = (\<lambda>b. Inl BadZipFile),
          untar = (\<lambda>b. Inl TarReadError), tfds_import = None, tfds_load = Inr [],
          skimage_data = (\<lambda>f. Inr [])\<rparr>"
  let ?R = "\<lambda>u::string. Inr (Response (Some 2) [Chunk [1], ReadError ConnectionReset]) :: exn + response"
  let ?tar = "joinp RAW_DIR (''mvtec_'' @ ''grid'' @ ''.tar.xz'')"
  let ?rest = "[(''leather'', ''http://h/leather'')]"
  note p = indiana_zip_def indiana_dir_def mvtec_dir_def RAW_DIR_def BASE_DIR_def joinp_def
  have h1: "\<not> path_exists ?W ''./data_raw/indiana.zip''"
    by (simp add: path_exists_def)
  have h2: "create_error ?W ''./data_raw/indiana.zip'' = None"
    by (simp add: create_error_def parent_def is_dir_def)
  have h3: "\<exists>cl cs rest. (Inr (Response (Some 2) [Chunk [1], ReadError ConnectionReset]) :: exn + response)
        = Inr (Response cl (map Chunk cs @ ReadError ConnectionReset # rest)) \<and> [] \<notin> set cs"
    by (rule exI [of _ "Some 2"], rule exI [of _ "[[1]]"], rule exI [of _ "[]"]) simp
  have d1: "download_file (\<lambda>u. Inl URLError) ''http://h/a.zip'' ''./data_raw/indiana.zip'' ?W
      = (False, \<lparr>files = [], dirs = [''./data_raw''],
           console = [Downloading ''./data_raw/indiana.zip'', ErrorMsg URLError],
           connections = [''http://h/a.zip'']\<rparr>)"
    by (simp add: download_file_def path_exists_def print_def Let_def)
  have d2: "download_file ?R ''http://h/a.zip'' ''./data_raw/indiana.zip'' ?W
      = (False, \<lparr>files = [(''./data_raw/indiana.zip'', [1])], dirs = [''./data_raw''],
           console = [Downloading ''./data_raw/indiana.zip'', Progress 1 2,
                      ErrorMsg ConnectionReset],
           connections = [''http://h/a.zip'']\<rparr>)"
    by (simp add: download_file_def path_exists_def print_def Let_def create_error_def
        parent_def is_dir_def write_file_def append_file_def read_file_def)
  have n1: "\<not> fst (download_file (net ?E) INDIANA_URL indiana_zip ?W)"
    by (simp add: p download_file_def path_exists_def Let_def)
  have n2: "\<not> path_exists ?W (joinp mvtec_dir ''grid'')"
    by (simp add: p path_exists_def)
  have n3: "download_file (net ?E) ''http://h/grid'' ?tar ?W =
      (False, \<lparr>files = [], dirs = [''./data_raw''],
           console = [Downloading ''./data_raw/mvtec_grid.tar.xz'', ErrorMsg URLError],
           connections = [''http://h/grid'']\<rparr>)"
    by (simp add: p download_file_def path_exists_def print_def Let_def)
  have n3': "\<not> fst (download_file (net ?E) ''http://h/grid'' ?tar ?W)"
    unfolding n3 by simp
  have n4: "acquire_mvtec ?E ?rest
       \<lparr>files = [], dirs = [''./data_raw''],
           console = [Downloading ''./data_raw/mvtec_grid.tar.xz'', ErrorMsg URLError],
           connections = [''http://h/grid'']\<rparr>
     = Return ()
          \<lparr>files = [], dirs = [''./data_raw''],
           console = [Downloading ''./data_raw/mvtec_grid.tar.xz'', ErrorMsg URLError,
                      Downloading ''./data_raw/mvtec_leather.tar.xz'', ErrorMsg URLError],
           connections = [''http://h/grid'', ''http://h/leather'']\<rparr>"
    by (simp add: p bind_def download_file_def path_exists_def print_def Let_def)
  have x1: "\<not> path_exists ?X indiana_dir"
    by (simp add: p path_exists_def)
  have x2: "download_file (net ?E) INDIANA_URL indiana_zip ?X
      = (True, print (AlreadyExists indiana_zip) ?X)"
    by (simp add: p download_file_def path_exists_def)
  have x3: "read_file (print (AlreadyExists indiana_zip) ?X) indiana_zip = Some [1]"
    by (simp add: p read_file_def)
  have x4: "unzip ?E [1] = Inl BadZipFile"
    by simp
  let ?Z = "\<lparr>files = [(''./data_raw/mvtec_grid.tar.xz'', [1])],
          dirs = [''./data_raw'', ''./data_raw/mvtec''],
          console = [Downloading ''./data_raw/indiana.zip'', ErrorMsg URLError],
          connections = [INDIANA_URL]\<rparr>"
  have z1: "acquire_indiana ?E ?Y = Return () ?Z"
    by (simp add: p acquire_indiana_def download_file_def path_exists_def print_def Let_def)
  have z2: "mkdir_exist_ok mvtec_dir ?Z = Return () ?Z"
    by (simp add: p mkdir_exist_ok_def is_dir_def)
  have z3: "MVTEC_URLS = [] @ (''grid'', snd (hd MVTEC_URLS)) # tl MVTEC_URLS"
    by (simp add: MVTEC_URLS_def)
  have z4: "acquire_mvtec ?E [] ?Z = Return () ?Z"
    by simp
  have y1: "\<not> path_exists ?Z (joinp mvtec_dir ''grid'')"
    by (simp add: p path_exists_def)
  have y2: "download_file (net ?E) (snd (hd MVTEC_URLS)) ?tar ?Z
      = (True, print (AlreadyExists ?tar) ?Z)"
    by (simp add: p download_file_def path_exists_def)
  have y3: "read_file (print (AlreadyExists ?tar) ?Z) ?tar = Some [1]"
    by (simp add: p read_file_def)
  have y4: "untar ?E [1] = Inl TarReadError"
    by simp
  note T1 = network_failures_caught [where w = ?W and dest = "''./data_raw/indiana.zip''"
        and nw = "\<lambda>u. Inl URLError" and url = "''http://h/a.zip''" and e = URLError
        and E = ?E and v = ?W and cat = "''grid''" and u = "''http://h/grid''"
        and urls = ?rest and x = ?X and ?x1.0 = "print (AlreadyExists indiana_zip) ?X"
        and b = "[1]" and ?e1.0 = BadZipFile and z = ?Y and ?z1.0 = ?Z and ?z2.0 = ?Z
        and pre = "[]" and k = "''grid''" and a = "snd (hd MVTEC_URLS)"
        and rest = "tl MVTEC_URLS" and y = ?Z and ?y1.0 = "print (AlreadyExists ?tar) ?Z"
        and c = "[1]" and ?e2.0 = TarReadError]
  note T2 = network_failures_caught [where w = ?W and dest = "''./data_raw/indiana.zip''"
        and nw = ?R and url = "''http://h/a.zip''" and e = ConnectionReset]
  have c1: "\<not> fst (download_file (\<lambda>u. Inl URLError) ''http://h/a.zip''
        ''./data_raw/indiana.zip'' ?W)
      \<and> last (console (snd (download_file (\<lambda>u. Inl URLError) ''http://h/a.zip''
        ''./data_raw/indiana.zip'' ?W))) = ErrorMsg URLError"
    using T1 [THEN conjunct1] h1 by blast
  have c2: "\<not> fst (download_file ?R ''http://h/a.zip'' ''./data_raw/indiana.zip'' ?W)
      \<and> last (console (snd (download_file ?R ''http://h/a.zip''
        ''./data_raw/indiana.zip'' ?W))) = ErrorMsg ConnectionReset"
    using T2 [THEN conjunct1] h1 h2 h3 by blast
  have c3: "returned (acquire_indiana ?E ?W) = Some ()"
    using T1 [THEN conjunct2, THEN conjunct1] n1 by blast
  have c4: "acquire_mvtec ?E ((''grid'', ''http://h/grid'') # ?rest) ?W =
      acquire_mvtec ?E ?rest (snd (download_file (net ?E) ''http://h/grid'' ?tar ?W))"
    using T1 [THEN conjunct2, THEN conjunct2, THEN conjunct1] n2 n3' by blast
  have c5: "acquire_datasets ?E ?X = Raise BadZipFile
      (print (Extracting indiana_zip) (print (AlreadyExists indiana_zip) ?X))"
    using T1 [THEN conjunct2, THEN conjunct2, THEN conjunct2, THEN conjunct1] x1 x2 x3 x4
    by blast
  have c6: "acquire_datasets ?E ?Y = Raise TarReadError
      (print (Extracting ?tar) (print (AlreadyExists ?tar) ?Z))"
    using T1 [THEN conjunct2, THEN conjunct2, THEN conjunct2, THEN conjunct2]
      z1 z2 z3 z4 y1 y2 y3 y4
    by blast
  have t4: "acquire_mvtec ?E ((''grid'', ''http://h/grid'') # ?rest) ?W = Return ()
          \<lparr>files = [], dirs = [''./data_raw''],
           console = [Downloading ''./data_raw/mvtec_grid.tar.xz'', ErrorMsg URLError,
                      Downloading ''./data_raw/mvtec_leather.tar.xz'', ErrorMsg URLError],
           connections = [''http://h/grid'', ''http://h/leather'']\<rparr>"
    unfolding c4 n3 snd_conv by (rule n4)
  have t5: "acquire_datasets ?E ?X = Raise BadZipFile
          \<lparr>files = [(''./data_raw/indiana.zip'', [1])], dirs = [''./data_raw''],
           console = [AlreadyExists ''./data_raw/indiana.zip'',
                      Extracting ''./data_raw/indiana.zip''],
           connections = []\<rparr>"
    unfolding c5 by (simp add: p print_def)
  have t6: "acquire_datasets ?E ?Y = Raise TarReadError
          \<lparr>files = [(''./data_raw/mvtec_grid.tar.xz'', [1])],
           dirs = [''./data_raw'', ''./data_raw/mvtec''],
           console = [Downloading ''./data_raw/indiana.zip'', ErrorMsg URLError,
                      AlreadyExists ''./data_raw/mvtec_grid.tar.xz'',
                      Extracting ''./data_raw/mvtec_grid.tar.xz''],
           connections = [INDIANA_URL]\<rparr>"
    unfolding c6 by (simp add: p print_def)
  show ?thesis
    by (intro conjI) (rule h1 h2 d1 d2 c1 [THEN conjunct1] c1 [THEN conjunct2]
        c2 [THEN conjunct1] c2 [THEN conjunct2] c3 t4 t5 t6)+
qed

text \<open>
  The claim as written fails at a corrupt archive: the download succeeds, the decoder
  raises \<open>BadZipFile\<close>, and the acquisition ends with that exception.
\<close>

theorem extraction_failure_counterexample:
  "raised (acquire_datasets
       \<lparr>net = (\<lambda>u. Inr (Response None [Chunk [1]])), unzip = (\<lambda>b. Inl BadZipFile),
        untar = (\<lambda>b. Inr []), tfds_import = None, tfds_load = Inr [],
        skimage_data = (\<lambda>f. Inr [])\<rparr>
       \<lparr>files = [], dirs = [''./data_raw''], console = [], connections = []\<rparr>)
     = Some BadZipFile"
  by (simp add: acquire_datasets_def acquire_indiana_def bind_def download_file_def
      path_exists_def print_def write_file_def append_file_def read_file_def extract_zip_def
      Let_def indiana_dir_def indiana_zip_def RAW_DIR_def BASE_DIR_def joinp_def
      create_error_def parent_def is_dir_def)

subsection \<open>The fallback for the satellite images\<close>








section \<open>Properties of the filter banks\<close>













text \<open>
  C5. \<open>pipelines\<close> gives exactly two entries: P1 is median denoising with a disk of
  radius 3 followed by unsharp masking of the denoised image, P2 is closing followed by
  opening, both with a disk of radius 3. Both are functions of the image alone.
\<close>

theorem pipelines_fixed:
  "pipelines L x = [(''P1_med3+unsharp'', P1_spec L x), (''P2_close+open'', P2_spec x)]"
  by (simp add: pipelines_def P1_spec_def P2_spec_def unsharp_mask_def median_denoise_def Let_def)

text \<open>
  C8. The three banks of \<^verbatim>\<open>scripts/regenerar_figuras_eurosat.py\<close> are the same
  functions as those of \<^verbatim>\<open>generar_figuras.py\<close>.
\<close>

theorem banks_agree:
  "spatial_filters_regen L x = spatial_filters L x
   \<and> morph_filters_regen x r = morph_filters x r
   \<and> pipelines_regen L x = pipelines L x"
  by (simp add: spatial_filters_regen_def spatial_filters_def morph_filters_regen_def
      morph_filters_def pipelines_regen_def pipelines_def)

subsection \<open>Shapes\<close>

lemma same_shape_refl [simp]: "same_shape x x"
  by (simp add: same_shape_def)

lemma same_shape_trans: "same_shape z y \<Longrightarrow> same_shape y x \<Longrightarrow> same_shape z x"
  by (simp add: same_shape_def)

lemma same_shape_map [simp]: "same_shape (map (map f) x) x"
  by (simp add: same_shape_def comp_def)

lemma map_length_map2:
  "map length b = map length a \<Longrightarrow> map length (map2 (map2 f) a b) = map length a"
proof (induction a arbitrary: b)
  case Nil
  then show ?case by simp
next
  case (Cons r a)
  then show ?case by (cases b) auto
qed

lemma same_shape_map2: "same_shape b a \<Longrightarrow> same_shape (map2 (map2 f) a b) a"
  unfolding same_shape_def by (rule map_length_map2)

lemma map_length_tabulate2: "map length (tabulate2 h w f) = replicate h w"
  by (simp add: tabulate2_def comp_def map_replicate_const)

lemma rect_map_length: "rect x \<Longrightarrow> map length x = replicate (height x) (width x)"
  by (auto simp: rect_def height_def list_all_iff intro: replicate_eqI)

lemma same_shape_tabulate2: "rect x \<Longrightarrow> same_shape (tabulate2 (height x) (width x) f) x"
  by (simp add: same_shape_def map_length_tabulate2 rect_map_length)

lemma same_shape_rect:
  assumes "same_shape y x" "rect x"
  shows "rect y \<and> height y = height x \<and> width y = width x"
proof -
  from assms have ml: "map length y = replicate (height x) (width x)"
    by (simp add: same_shape_def rect_map_length)
  then have h: "height y = height x"
    by (metis height_def length_map length_replicate)
  have w: "width y = width x"
  proof (cases y)
    case Nil
    with h show ?thesis by (cases x) (simp_all add: height_def width_def)
  next
    case (Cons r ys)
    with ml have "length r = width x" by (cases "height x") auto
    with Cons show ?thesis by (simp add: width_def)
  qed
  have "\<forall>r \<in> set y. length r = width x"
    using ml by (metis (no_types, lifting) in_set_replicate image_eqI list.set_map)
  with h w show ?thesis by (simp add: rect_def list_all_iff)
qed

lemma same_shape_np_clip [simp]: "same_shape (np_clip a lo hi) a"
  by (simp add: np_clip_def)

lemma same_shape_np_scale [simp]: "same_shape (np_scale a c) a"
  by (simp add: np_scale_def)

lemma same_shape_np_abs [simp]: "same_shape (np_abs a) a"
  by (simp add: np_abs_def)

lemma same_shape_astype [simp]: "same_shape (astype_float32 a) a"
  by (simp add: astype_float32_def)

lemma same_shape_np_add: "same_shape b a \<Longrightarrow> same_shape (np_add a b) a"
  unfolding np_add_def by (rule same_shape_map2)

lemma same_shape_np_sub: "same_shape b a \<Longrightarrow> same_shape (np_sub a b) a"
  unfolding np_sub_def by (rule same_shape_map2)

lemma same_shape_rescale [simp]: "same_shape (rescale_intensity a r) a"
  by (auto simp: rescale_intensity_def Let_def intro: same_shape_trans [OF same_shape_map]
      same_shape_trans [OF same_shape_np_clip])

lemma same_shape_erosion: "rect x \<Longrightarrow> same_shape (erosion x se) x"
  by (simp add: erosion_def same_shape_tabulate2)

lemma same_shape_dilation: "rect x \<Longrightarrow> same_shape (dilation x se) x"
  by (simp add: dilation_def same_shape_tabulate2)

lemma same_shape_opening: "rect x \<Longrightarrow> same_shape (opening_se x se) x"
  unfolding opening_se_def
  by (meson same_shape_dilation same_shape_erosion same_shape_rect same_shape_trans)

lemma same_shape_closing: "rect x \<Longrightarrow> same_shape (closing x se) x"
  unfolding closing_def
  by (meson same_shape_dilation same_shape_erosion same_shape_rect same_shape_trans)

lemma same_shape_unsharp:
  "same_shape g x \<Longrightarrow> same_shape (np_clip (np_add x (np_scale (np_sub x g) c)) lo hi) x"
  by (meson same_shape_np_add same_shape_np_clip same_shape_np_scale same_shape_np_sub
      same_shape_trans)


lemma same_shape_tophat: "rect x \<Longrightarrow> same_shape (white_tophat x se) x"
  unfolding white_tophat_def by (rule same_shape_np_sub) (rule same_shape_opening)

lemma spatial_shapes:
  assumes L: "filters_keep_shape L" and x: "rect x" and y: "(k, y) \<in> set (spatial_filters L x)"
  shows "same_shape y x"
proof -
  from L x have g: "\<And>s p. same_shape (gaussian L x s p) x"
    and m: "\<And>se. same_shape (median L x se) x"
    and so: "same_shape (sobel L x) x" and la: "same_shape (laplace L x) x"
    and ca: "\<And>s. same_shape (canny L x s) x"
    by (simp_all add: filters_keep_shape_def)
  from y consider "y = gaussian L x 1 True" | "y = gaussian L x 2 True"
    | "y = median L x (disk 2)" | "y = median L x (disk 4)"
    | "y = np_clip (np_add x (np_scale (np_sub x (gaussian L x 1 False)) 1)) 0 1"
    | "y = rescale_intensity (sobel L x) (0, 1)"
    | "y = rescale_intensity (np_abs (laplace L x)) (0, 1)"
    | "y = astype_float32 (canny L x (6 / 5))"
    by (auto simp: spatial_filters_def)
  then show ?thesis
  proof cases
    case 5
    then show ?thesis using g by (simp add: same_shape_unsharp)
  next
    case 6
    then show ?thesis using so same_shape_rescale same_shape_trans by blast
  next
    case 7
    then show ?thesis using la same_shape_rescale same_shape_np_abs same_shape_trans by blast
  next
    case 8
    then show ?thesis using ca [of "6 / 5"] same_shape_astype [of "canny L x (6 / 5)"]
      by (simp add: same_shape_def)
  qed (simp_all add: g m)
qed

lemma morph_shapes:
  assumes x: "rect x" and y: "(k, y) \<in> set (morph_filters x r)"
  shows "same_shape y x"
  using y x
  by (auto simp: morph_filters_def Let_def same_shape_opening same_shape_closing
      same_shape_tophat same_shape_erosion same_shape_dilation)

lemma pipelines_shapes:
  assumes L: "filters_keep_shape L" and x: "rect x" and y: "(k, y) \<in> set (pipelines L x)"
  shows "same_shape y x"
proof -
  let ?den = "median L x (disk 3)"
  from L x have den: "same_shape ?den x"
    by (simp add: filters_keep_shape_def)
  with x have rd: "rect ?den"
    by (simp add: same_shape_rect)
  with L have "same_shape (gaussian L ?den (3 / 2) False) ?den"
    by (simp add: filters_keep_shape_def)
  then have p1: "same_shape (np_clip (np_add ?den (np_scale (np_sub ?den
        (gaussian L ?den (3 / 2) False)) (6 / 5))) 0 1) x"
    using den same_shape_unsharp same_shape_trans by blast
  have "rect (closing x (disk 3))"
    using x same_shape_closing same_shape_rect by blast
  then have p2: "same_shape (opening_se (closing x (disk 3)) (disk 3)) x"
    using x same_shape_closing same_shape_opening same_shape_trans by blast
  from y p1 p2 show ?thesis
    by (auto simp: pipelines_def Let_def)
qed

subsection \<open>The range of \<^verbatim>\<open>rescale_intensity\<close>\<close>

lemma in_unit_iff: "in_unit y \<longleftrightarrow> (\<forall>v \<in> set (concat y). 0 \<le> v \<and> v \<le> 1)"
  by (auto simp: in_unit_def list_all_iff)

lemma concat_map_map: "concat (map (map f) x) = map f (concat x)"
  by (induction x) auto

lemma in_unit_rescale: "in_unit (rescale_intensity a (0, 1))"
proof -
  let ?S = "set (concat a)"
  let ?lo = "Min ?S" and ?hi = "Max ?S"
  have fin: "finite ?S" by simp
  show ?thesis
  proof (cases "?lo = ?hi")
    case True
    then show ?thesis
      by (auto simp: rescale_intensity_def Let_def in_unit_iff np_clip_def concat_map_map)
  next
    case False
    have "0 \<le> (min ?hi (max ?lo v) - ?lo) / (?hi - ?lo)
        \<and> (min ?hi (max ?lo v) - ?lo) / (?hi - ?lo) \<le> 1" if "v \<in> ?S" for v
    proof -
      from that fin have "?lo \<le> v" "v \<le> ?hi" by (simp_all del: set_concat)
      with False have "?lo < ?hi" by linarith
      then show ?thesis using \<open>?lo \<le> v\<close> \<open>v \<le> ?hi\<close>
        by (simp add: field_simps)
    qed
    with False show ?thesis
      by (auto simp: rescale_intensity_def Let_def in_unit_iff np_clip_def concat_map_map)
  qed
qed


lemma not_flat_Min_Max:
  assumes "\<not> flat a"
  shows "concat a \<noteq> [] \<and> Min (set (concat a)) \<noteq> Max (set (concat a))"
proof -
  let ?S = "set (concat a)"
  from assms have c: "card ?S \<ge> 2" by (simp add: flat_def del: set_concat)
  have ne: "?S \<noteq> {}"
  proof
    assume "?S = {}"
    then have "card ?S = 0" by (simp only: card.empty)
    with c show False by linarith
  qed
  have "Min ?S \<noteq> Max ?S"
  proof
    assume eq: "Min ?S = Max ?S"
    have "v = Min ?S" if "v \<in> ?S" for v
      using eq Min_le [OF _ that] Max_ge [OF _ that] by (simp del: set_concat)
    then have "?S \<subseteq> {Min ?S}" by auto
    then have "card ?S \<le> card {Min ?S}" by (intro card_mono) simp_all
    with c show False by simp
  qed
  with ne show ?thesis by simp
qed

lemma spans_rescale:
  assumes "\<not> flat a"
  shows "spans_unit (rescale_intensity a (0, 1))"
proof -
  let ?S = "set (concat a)"
  let ?lo = "Min ?S" and ?hi = "Max ?S"
  from assms have ne: "?S \<noteq> {}" and neq: "?lo \<noteq> ?hi"
    using not_flat_Min_Max by auto
  have fin: "finite ?S" by simp
  from fin ne have lo_in: "?lo \<in> ?S" and hi_in: "?hi \<in> ?S"
    by (rule Min_in, rule Max_in)
  have le: "?lo \<le> ?hi" using Min_le [OF fin hi_in] .
  with neq have lt: "?lo < ?hi" by simp
  have img: "set (concat (rescale_intensity a (0, 1)))
      = (\<lambda>v. (min ?hi (max ?lo v) - ?lo) / (?hi - ?lo)) ` ?S"
    using neq by (simp add: rescale_intensity_def Let_def np_clip_def concat_map_map comp_def)
  have "(min ?hi (max ?lo ?lo) - ?lo) / (?hi - ?lo) = 0" using le by simp
  with lo_in have z: "0 \<in> set (concat (rescale_intensity a (0, 1)))"
    unfolding img by (metis (no_types, lifting) image_eqI)
  have "(min ?hi (max ?lo ?hi) - ?lo) / (?hi - ?lo) = 1" using lt by simp
  with hi_in have o: "1 \<in> set (concat (rescale_intensity a (0, 1)))"
    unfolding img by (metis (no_types, lifting) image_eqI)
  from z o show ?thesis by (simp add: spans_unit_def in_unit_rescale)
qed

lemma binary_astype: "binary (astype_float32 m)"
  by (auto simp: binary_def astype_float32_def list_all_iff)

subsection \<open>Floating-point division\<close>

text \<open>
  The division is correctly rounded: its relative error is at most \<open>2 ^ - 53\<close>.
  \<open>ftrunc\<close> is the floor and \<open>fgt_one\<close> the comparison of the values.
\<close>

lemma bitlen_real_bounds:
  assumes pos: "0 < p"
  shows "2 powi (bitlen p - 1) \<le> real_of_int p" and "real_of_int p < 2 powi (bitlen p)"
proof -
  from bitlen_bounds [OF pos]
  have lo: "(2::int) ^ nat (bitlen p - 1) \<le> p" and hi: "p < 2 ^ nat (bitlen p)"
    by simp_all
  from pos have b1: "1 \<le> bitlen p"
    by (simp add: bitlen_alt_def)
  have "real_of_int (2 ^ nat (bitlen p - 1)) \<le> real_of_int p"
    using lo by (simp only: of_int_le_iff)
  then show "2 powi (bitlen p - 1) \<le> real_of_int p"
    using b1 by (simp add: power_int_nonneg_exp)
  have "real_of_int p < real_of_int (2 ^ nat (bitlen p))"
    using hi by (simp only: of_int_less_iff)
  then show "real_of_int p < 2 powi (bitlen p)"
    using b1 by (simp add: power_int_nonneg_exp)
qed

lemma powi_neg: "d < 0 \<Longrightarrow> (2::real) powi d = 1 / 2 ^ nat (- d)"
  using power_int_minus_divide [of "2::real" "- d"] by (simp add: power_int_nonneg_exp)

lemma ilog2_bounds:
  assumes p: "0 < p" and q: "0 < q"
  shows "2 powi (ilog2 p q) \<le> real_of_int p / real_of_int q"
    and "real_of_int p / real_of_int q < 2 powi (ilog2 p q + 1)"
proof -
  define d where "d = bitlen p - bitlen q"
  define ge where "ge = (if 0 \<le> d then q * 2 ^ nat d \<le> p else q \<le> p * 2 ^ nat (- d))"
  have il: "ilog2 p q = (if ge then d else d - 1)"
    by (simp add: ilog2_def Let_def d_def ge_def)
  have ge_iff: "ge \<longleftrightarrow> 2 powi d \<le> real_of_int p / real_of_int q"
  proof (cases "0 \<le> d")
    case True
    have "q * 2 ^ nat d \<le> p \<longleftrightarrow> real_of_int (q * 2 ^ nat d) \<le> real_of_int p"
      by (simp only: of_int_le_iff)
    also have "\<dots> \<longleftrightarrow> 2 ^ nat d \<le> real_of_int p / real_of_int q"
      using q by (simp add: field_simps)
    finally show ?thesis using True by (simp add: ge_def power_int_nonneg_exp)
  next
    case False
    have "q \<le> p * 2 ^ nat (- d) \<longleftrightarrow> real_of_int q \<le> real_of_int (p * 2 ^ nat (- d))"
      by (simp only: of_int_le_iff)
    also have "\<dots> \<longleftrightarrow> 1 / 2 ^ nat (- d) \<le> real_of_int p / real_of_int q"
      using q by (simp add: field_simps)
    finally show ?thesis using False by (simp add: ge_def powi_neg)
  qed
  have lo: "(2::real) powi (d - 1) \<le> real_of_int p / real_of_int q"
  proof -
    have "d - 1 = (bitlen p - 1) - bitlen q"
      by (simp add: d_def)
    then have "(2::real) powi (d - 1) = 2 powi ((bitlen p - 1) - bitlen q)"
      by (simp only:)
    also have "\<dots> = 2 powi (bitlen p - 1) / 2 powi (bitlen q)"
      by (rule power_int_diff) simp
    also have "\<dots> \<le> real_of_int p / real_of_int q"
      using bitlen_real_bounds [OF p] bitlen_real_bounds [OF q] p q
      by (intro frac_le) simp_all
    finally show ?thesis .
  qed
  have hi: "real_of_int p / real_of_int q < 2 powi (d + 1)"
  proof -
    have "real_of_int p / real_of_int q < 2 powi (bitlen p) / 2 powi (bitlen q - 1)"
      using bitlen_real_bounds [OF p] bitlen_real_bounds [OF q] p q
      by (intro frac_less) simp_all
    also have "\<dots> = 2 powi (bitlen p - (bitlen q - 1))"
      by (rule power_int_diff [symmetric]) simp
    also have "bitlen p - (bitlen q - 1) = d + 1"
      by (simp add: d_def)
    finally show ?thesis .
  qed
  show "2 powi (ilog2 p q) \<le> real_of_int p / real_of_int q"
    using il ge_iff lo by (cases ge) simp_all
  show "real_of_int p / real_of_int q < 2 powi (ilog2 p q + 1)"
    using il ge_iff hi by (cases ge) simp_all
qed


lemma fdiv_mantissa:
  assumes p: "0 < p" and q: "0 < q"
  shows "\<exists>m s. fdiv p q t = (m, t - s)
           \<and> \<bar>real_of_int m - real_of_int p / real_of_int q * 2 powi s\<bar> \<le> 1 / 2
           \<and> 2 ^ 52 \<le> real_of_int p / real_of_int q * 2 powi s
           \<and> real_of_int p / real_of_int q * 2 powi s < 2 ^ 53"
proof -
  define x where "x = real_of_int p / real_of_int q"
  define s where "s = 52 - ilog2 p q"
  define num where "num = (if 0 \<le> s then p * 2 ^ nat s else p)"
  define den where "den = (if 0 \<le> s then q else q * 2 ^ nat (- s))"
  define m0 where "m0 = num div den"
  define r where "r = num mod den"
  define m where "m = (if 2 * r < den \<or> (2 * r = den \<and> even m0) then m0 else m0 + 1)"
  define y where "y = x * 2 powi s"
  have fd: "fdiv p q t = (m, t - s)"
    using p by (simp add: fdiv_def Let_def s_def num_def den_def m0_def r_def m_def)
  have den_pos: "0 < den" using q by (simp add: den_def)
  have quot: "real_of_int num / real_of_int den = y"
  proof (cases "0 \<le> s")
    case True
    then show ?thesis
      by (simp add: num_def den_def y_def x_def power_int_nonneg_exp)
  next
    case False
    then show ?thesis
      by (simp add: num_def den_def y_def x_def powi_neg)
  qed
  have split: "num = m0 * den + r" and r0: "0 \<le> r" and r1: "r < den"
    using den_pos by (simp_all add: m0_def r_def)
  have frac: "y - real_of_int m0 = real_of_int r / real_of_int den"
  proof -
    have "real_of_int num = real_of_int m0 * real_of_int den + real_of_int r"
      using split by (metis of_int_add of_int_mult)
    then show ?thesis
      unfolding quot [symmetric] using den_pos by (simp add: field_simps)
  qed
  have near: "\<bar>real_of_int m - y\<bar> \<le> 1 / 2"
  proof (cases "2 * r < den \<or> (2 * r = den \<and> even m0)")
    case True
    then have "2 * r \<le> den" by auto
    then have "2 * real_of_int r \<le> real_of_int den"
      by (metis of_int_le_iff of_int_mult of_int_numeral)
    then have "real_of_int r / real_of_int den \<le> 1 / 2"
      using den_pos by (simp add: field_simps)
    moreover have "0 \<le> real_of_int r / real_of_int den"
      using r0 den_pos by simp
    moreover have "real_of_int m = real_of_int m0"
      using True by (simp add: m_def)
    ultimately show ?thesis
      using frac by linarith
  next
    case False
    then have "den \<le> 2 * r" by auto
    then have "real_of_int den \<le> 2 * real_of_int r"
      by (metis of_int_le_iff of_int_mult of_int_numeral)
    then have "1 / 2 \<le> real_of_int r / real_of_int den"
      using den_pos by (simp add: field_simps)
    moreover have "real_of_int r / real_of_int den < 1"
      using r1 den_pos by simp
    moreover have "real_of_int m = real_of_int m0 + 1"
      using False by (simp add: m_def)
    ultimately show ?thesis
      using frac by linarith
  qed
  have xpos: "0 < x" using p q by (simp add: x_def)
  define c where "c = (2::real) powi (ilog2 p q)"
  have cpos: "0 < c" by (simp add: c_def)
  have "c \<le> x" and "x < 2 * c"
    using ilog2_bounds [OF p q] by (simp_all add: x_def c_def power_int_add)
  define z where "z = x / c"
  have ratio: "1 \<le> z" "z < 2"
    using \<open>c \<le> x\<close> \<open>x < 2 * c\<close> cpos by (simp_all add: z_def field_simps)
  have "y = x * (2 powi 52 / c)"
    by (simp add: y_def s_def c_def power_int_diff)
  then have "y = z * 2 ^ 52"
    by (simp add: z_def)
  with ratio have "2 ^ 52 \<le> y" "y < 2 ^ 53"
    by simp_all
  with fd near show ?thesis
    unfolding y_def x_def by blast
qed


lemma fdiv_error:
  assumes p: "0 < p" and q: "0 < q"
  shows "\<bar>fval (fdiv p q t) - real_of_int p / real_of_int q * 2 powi t\<bar>
           \<le> real_of_int p / real_of_int q * 2 powi t / 2 ^ 53"
proof -
  define x where "x = real_of_int p / real_of_int q"
  from fdiv_mantissa [OF p q, of t] obtain m s where fd: "fdiv p q t = (m, t - s)"
    and near: "\<bar>real_of_int m - x * 2 powi s\<bar> \<le> 1 / 2"
    and big: "2 ^ 52 \<le> x * 2 powi s"
    unfolding x_def by blast
  define g where "g = (2::real) powi (t - s)"
  define y where "y = x * 2 powi s"
  have gpos: "0 < g" by (simp add: g_def)
  have xt: "x * 2 powi t = y * g"
    by (simp add: g_def y_def power_int_diff)
  have "fval (fdiv p q t) - x * 2 powi t = (real_of_int m - y) * g"
    unfolding xt fd by (simp add: fval_def g_def [symmetric] algebra_simps)
  then have "\<bar>fval (fdiv p q t) - x * 2 powi t\<bar> = \<bar>real_of_int m - y\<bar> * g"
    using gpos by (simp add: abs_mult)
  also have "\<dots> \<le> (1 / 2) * g"
    using near gpos unfolding y_def [symmetric] by (intro mult_right_mono) simp_all
  also have "\<dots> \<le> (y / 2 ^ 53) * g"
    using big gpos unfolding y_def [symmetric] by (intro mult_right_mono) simp_all
  also have "\<dots> = x * 2 powi t / 2 ^ 53"
    unfolding xt by simp
  finally show ?thesis unfolding x_def .
qed

lemma ftrunc_floor: "ftrunc f = \<lfloor>fval f\<rfloor>"
proof (cases "0 \<le> snd f")
  case True
  define K where "K = fst f * 2 ^ nat (snd f)"
  from True have "fval f = real_of_int K"
    by (simp add: fval_def power_int_nonneg_exp K_def)
  then have "\<lfloor>fval f\<rfloor> = K"
    by (simp only: floor_of_int)
  then show ?thesis using True by (simp add: ftrunc_def K_def)
next
  case False
  define D :: int where "D = 2 ^ nat (- snd f)"
  from False have "fval f = real_of_int (fst f) / real_of_int D"
    by (simp add: fval_def powi_neg D_def)
  then have "\<lfloor>fval f\<rfloor> = fst f div D"
    by (simp only: floor_divide_of_int_eq)
  then show ?thesis using False by (simp add: ftrunc_def D_def)
qed

lemma fgt_one_iff: "fgt_one f \<longleftrightarrow> 1 < fval f"
proof (cases "0 \<le> snd f")
  case True
  define K where "K = fst f * 2 ^ nat (snd f)"
  from True have "fval f = real_of_int K"
    by (simp add: fval_def power_int_nonneg_exp K_def)
  then have "1 < fval f \<longleftrightarrow> 1 < K"
    by (simp only: of_int_1_less_iff)
  then show ?thesis using True by (simp add: fgt_one_def K_def)
next
  case False
  define D :: int where "D = 2 ^ nat (- snd f)"
  have Dpos: "0 < D" by (simp add: D_def)
  from False have "fval f = real_of_int (fst f) / real_of_int D"
    by (simp add: fval_def powi_neg D_def)
  then have "1 < fval f \<longleftrightarrow> 1 < real_of_int (fst f) / real_of_int D"
    by (simp only:)
  also have "\<dots> \<longleftrightarrow> real_of_int D < real_of_int (fst f)"
    using Dpos by (simp add: field_simps)
  also have "\<dots> \<longleftrightarrow> D < fst f"
    by (simp only: of_int_less_iff)
  finally show ?thesis using False by (simp add: fgt_one_def D_def)
qed

text \<open>
  The sides that \<^verbatim>\<open>load_gray\<close> asks for: for a longer side \<open>m\<close>, a side
  \<open>k \<le> m\<close> and \<open>M\<close> for \<^verbatim>\<open>max_side\<close>, the new side
  \<^verbatim>\<open>int(k / (m / M))\<close> is at most \<open>M\<close>, and at least 1 when \<open>2 * m \<le> k * M\<close>.
\<close>

lemma int_div_error:
  assumes "0 < p" "0 < q"
  shows "\<bar>fval (int_div p q) - real_of_int p / real_of_int q\<bar>
           \<le> real_of_int p / real_of_int q / 2 ^ 53"
  using fdiv_error [OF assms, of 0] by (simp add: int_div_def)

lemma fval_pos_fst:
  assumes "0 < fval f"
  shows "0 < fst f"
proof -
  have "0 < (2::real) powi snd f" by simp
  with assms have "0 < real_of_int (fst f)"
    unfolding fval_def by (rule zero_less_mult_pos2)
  then show ?thesis by simp
qed

lemma int_div_float_error:
  assumes k: "0 < k" and f: "0 < fval f"
  shows "\<bar>fval (int_div_float k f) - real_of_int k / fval f\<bar> \<le> real_of_int k / fval f / 2 ^ 53"
proof -
  have m: "0 < fst f" using f by (rule fval_pos_fst)
  have eq: "real_of_int k / real_of_int (fst f) * 2 powi (- snd f) = real_of_int k / fval f"
    by (simp add: fval_def power_int_minus field_simps)
  show ?thesis
    using fdiv_error [OF k m, of "- snd f"] unfolding eq int_div_float_def .
qed

lemma int_div_float_zero: "ftrunc (int_div_float 0 f) = 0"
  by (simp add: int_div_float_def fdiv_def ftrunc_def)

lemma real_below_pow52:
  assumes "M < (2::int) ^ 52"
  shows "real_of_int M \<le> 2 ^ 52 - 1"
proof -
  from assms have "M \<le> 2 ^ 52 - 1" by simp
  then have "real_of_int M \<le> real_of_int (2 ^ 52 - 1)" by (simp only: of_int_le_iff)
  then show ?thesis by simp
qed

lemma new_side_le:
  assumes m: "0 < m" and M: "0 < M" and Mb: "M < 2 ^ 52"
    and k0: "0 \<le> k" and km: "k \<le> m" and gt: "fgt_one (int_div m M)"
  shows "ftrunc (int_div_float k (int_div m M)) \<le> M"
proof (cases "k = 0")
  case True
  then show ?thesis using M by (simp add: int_div_float_zero)
next
  case False
  with k0 have k: "0 < k" by simp
  define u :: real where "u = 1 / 2 ^ 53"
  define a where "a = real_of_int m / real_of_int M"
  define s where "s = fval (int_div m M)"
  define f where "f = fval (int_div_float k (int_div m M))"
  have u: "0 < u" "u < 1" by (simp_all add: u_def)
  have a: "0 < a" using m M by (simp add: a_def)
  have s1: "1 < s" using gt by (simp add: fgt_one_iff s_def)
  have "\<bar>s - a\<bar> \<le> a * u"
    using int_div_error [OF m M] by (simp add: s_def a_def u_def)
  then have sl: "a * (1 - u) \<le> s" by (simp add: algebra_simps abs_le_iff)
  define c where "c = real_of_int k / s"
  have "\<bar>f - c\<bar> \<le> c * u"
    using int_div_float_error [OF k, of "int_div m M"] s1
    by (simp add: f_def s_def u_def c_def)
  then have "f \<le> c * (1 + u)" by (simp add: algebra_simps abs_le_iff)
  then have fu: "f \<le> real_of_int k / s * (1 + u)" by (simp only: c_def)
  have pos: "0 < a * (1 - u)" using a u by simp
  have "real_of_int k / s \<le> real_of_int k / (a * (1 - u))"
    using sl pos k by (intro divide_left_mono) simp_all
  also have "\<dots> = (real_of_int k * real_of_int M / real_of_int m) / (1 - u)"
    using m M by (simp add: a_def)
  also have "\<dots> \<le> real_of_int M / (1 - u)"
  proof -
    have "real_of_int k * real_of_int M \<le> real_of_int m * real_of_int M"
      using km M by (intro mult_right_mono) simp_all
    then have "real_of_int k * real_of_int M / real_of_int m \<le> real_of_int M"
      using m by (simp add: pos_divide_le_eq mult.commute)
    then show ?thesis using u by (intro divide_right_mono) simp_all
  qed
  finally have ks: "real_of_int k / s \<le> real_of_int M / (1 - u)" .
  have "real_of_int k / s * (1 + u) \<le> real_of_int M / (1 - u) * (1 + u)"
    using ks u by (intro mult_right_mono) simp_all
  with fu have "f \<le> real_of_int M / (1 - u) * (1 + u)" by (rule order_trans)
  also have "\<dots> < real_of_int M + 1"
  proof -
    have "real_of_int M \<le> 2 ^ 52 - 1" using Mb by (rule real_below_pow52)
    then have "real_of_int M * (1 + u) < (real_of_int M + 1) * (1 - u)"
      by (simp add: u_def algebra_simps)
    then show ?thesis using u by (simp add: pos_divide_less_eq)
  qed
  finally have "f < real_of_int M + 1" .
  then have "\<lfloor>f\<rfloor> \<le> M" by (simp add: floor_le_iff)
  then show ?thesis by (simp add: ftrunc_floor f_def)
qed

lemma no_resize_small:
  assumes m: "0 < m" and M: "0 < M" and Mb: "M < 2 ^ 52"
    and ngt: "\<not> fgt_one (int_div m M)"
  shows "m \<le> M"
proof (rule ccontr)
  assume "\<not> m \<le> M"
  then have mM: "real_of_int M + 1 \<le> real_of_int m" by linarith
  define u :: real where "u = 1 / 2 ^ 53"
  define a where "a = real_of_int m / real_of_int M"
  define s where "s = fval (int_div m M)"
  have u: "0 < u" "u < 1" by (simp_all add: u_def)
  have s1: "s \<le> 1" using ngt by (simp add: fgt_one_iff s_def)
  have "\<bar>s - a\<bar> \<le> a * u"
    using int_div_error [OF m M] by (simp add: s_def a_def u_def)
  then have sl: "a * (1 - u) \<le> s" by (simp add: algebra_simps abs_le_iff)
  have "(real_of_int M + 1) / real_of_int M \<le> a"
    using mM M by (simp add: a_def divide_right_mono)
  then have "(real_of_int M + 1) / real_of_int M * (1 - u) \<le> a * (1 - u)"
    using u by (intro mult_right_mono) simp_all
  with sl s1 have "(real_of_int M + 1) / real_of_int M * (1 - u) \<le> 1" by linarith
  then have le: "(real_of_int M + 1) * (1 - u) \<le> real_of_int M"
    using M by (simp add: pos_divide_le_eq field_simps)
  have "real_of_int M \<le> 2 ^ 52 - 1" using Mb by (rule real_below_pow52)
  then have "real_of_int M < (real_of_int M + 1) * (1 - u)"
    by (simp add: u_def algebra_simps)
  with le show False by simp
qed

lemma new_side_pos:
  assumes m: "0 < m" and M: "0 < M" and Mb: "M < 2 ^ 52"
    and k: "0 < k" and wide: "2 * m \<le> k * M" and gt: "fgt_one (int_div m M)"
  shows "1 \<le> ftrunc (int_div_float k (int_div m M))"
proof -
  define u :: real where "u = 1 / 2 ^ 53"
  define a where "a = real_of_int m / real_of_int M"
  define s where "s = fval (int_div m M)"
  define f where "f = fval (int_div_float k (int_div m M))"
  have u: "0 < u" "u < 1" by (simp_all add: u_def)
  have a: "0 < a" using m M by (simp add: a_def)
  have s1: "1 < s" using gt by (simp add: fgt_one_iff s_def)
  have "\<bar>s - a\<bar> \<le> a * u"
    using int_div_error [OF m M] by (simp add: s_def a_def u_def)
  then have su: "s \<le> a * (1 + u)" by (simp add: algebra_simps abs_le_iff)
  define c where "c = real_of_int k / s"
  have "\<bar>f - c\<bar> \<le> c * u"
    using int_div_float_error [OF k, of "int_div m M"] s1
    by (simp add: f_def s_def u_def c_def)
  then have "c * (1 - u) \<le> f" by (simp add: algebra_simps abs_le_iff)
  then have fl: "real_of_int k / s * (1 - u) \<le> f" by (simp only: c_def)
  have "real_of_int (2 * m) \<le> real_of_int (k * M)"
    using wide by (simp only: of_int_le_iff)
  then have "2 * real_of_int m \<le> real_of_int k * real_of_int M" by simp
  then have "2 * a \<le> real_of_int k" using M by (simp add: a_def pos_divide_le_eq)
  then have "2 * s \<le> real_of_int k * (1 + u)"
  proof -
    assume h: "2 * a \<le> real_of_int k"
    have "2 * s \<le> 2 * a * (1 + u)" using su by simp
    also have "\<dots> \<le> real_of_int k * (1 + u)" using h u by (intro mult_right_mono) simp_all
    finally show ?thesis .
  qed
  then have "2 / (1 + u) \<le> real_of_int k / s"
    using s1 u by (simp add: field_simps)
  then have "2 / (1 + u) * (1 - u) \<le> real_of_int k / s * (1 - u)"
    using u by (intro mult_right_mono) simp_all
  moreover have "1 \<le> 2 / (1 + u) * (1 - u)" by (simp add: u_def)
  ultimately have "1 \<le> f" using fl by linarith
  then have "1 \<le> \<lfloor>f\<rfloor>" by (simp add: le_floor_iff)
  then show ?thesis by (simp add: ftrunc_floor f_def)
qed


lemma fits_no_resize:
  assumes m: "0 < m" and mM: "m \<le> M"
  shows "\<not> fgt_one (int_div m M)"
proof -
  have M: "0 < M" using m mM by simp
  define x where "x = real_of_int m / real_of_int M"
  have x1: "x \<le> 1" using mM M by (simp add: x_def)
  from fdiv_mantissa [OF m M, of 0] obtain k s where fd: "fdiv m M 0 = (k, 0 - s)"
    and near: "\<bar>real_of_int k - x * 2 powi s\<bar> \<le> 1 / 2"
    and big: "2 ^ 52 \<le> x * 2 powi s"
    unfolding x_def by blast
  have le: "x * 2 powi s \<le> 2 powi s"
    using x1 by (simp add: mult_le_cancel_right1)
  have s0: "0 \<le> s"
  proof (rule ccontr)
    assume "\<not> 0 \<le> s"
    then have "s < 0" by simp
    then have "(2::real) powi s = 1 / 2 ^ nat (- s)" by (rule powi_neg)
    also have "\<dots> \<le> 1" by simp
    finally show False using big le by simp
  qed
  define n where "n = nat s"
  have pw: "(2::real) powi s = 2 ^ n"
    using s0 by (simp add: n_def power_int_def)
  have le': "x * 2 ^ n \<le> 2 ^ n"
    using le unfolding pw .
  have "real_of_int k \<le> x * 2 powi s + 1 / 2"
    using near by linarith
  then have "real_of_int k \<le> x * 2 ^ n + 1 / 2"
    unfolding pw .
  with le' have "real_of_int k < 2 ^ n + 1" by linarith
  then have "real_of_int k < real_of_int (2 ^ n + 1)" by simp
  then have "k < 2 ^ n + 1" by (simp only: of_int_less_iff)
  then have kn: "k \<le> 2 ^ n" by simp
  have "fval (int_div m M) = real_of_int k * 2 powi (- s)"
    by (simp add: int_div_def fd fval_def)
  also have "\<dots> = real_of_int k / 2 ^ n"
    by (simp add: power_int_minus pw field_simps)
  also have "\<dots> \<le> 1"
  proof -
    from kn have "real_of_int k \<le> real_of_int (2 ^ n)" by (simp only: of_int_le_iff)
    then show ?thesis by simp
  qed
  finally show ?thesis by (simp add: fgt_one_iff)
qed

subsection \<open>Normalisation\<close>

lemma in_unit_bytes: "in_unit (map (map (\<lambda>v::8 word. real (unat v) / 255)) arr)"
proof -
  have "0 \<le> real (unat v) / 255 \<and> real (unat v) / 255 \<le> 1" for v :: "8 word"
  proof -
    have "unat v < 2 ^ 8"
      using unsigned_less [of v, where ?'a = nat] by simp
    then have "real (unat v) \<le> 255"
      by (simp del: of_nat_unat)
    then show ?thesis by (simp del: of_nat_unat)
  qed
  then show ?thesis
    by (simp add: in_unit_def list_all_iff del: of_nat_unat)
qed

lemma rect_nonempty:
  assumes "rect x" "0 < height x" "0 < width x"
  shows "concat x \<noteq> []"
  using assms by (cases x) (auto simp: height_def width_def rect_def)

lemma load_gray_regen_eq: "load_gray_regen L arr max_side = load_gray L arr max_side"
  by (simp add: load_gray_regen_def load_gray_def)

lemma resize_contract_at:
  assumes "resize_contract L" and "concat x \<noteq> []"
  shows "if nh = 0 \<or> nw = 0 then isl (resize L x (nh, nw))
         else \<exists>y. resize L x (nh, nw) = Inr y
                \<and> height y = nh
                \<and> list_all (\<lambda>row. length row = nw) y
                \<and> list_all (list_all (\<lambda>v. Min (set (concat x)) \<le> v \<and> v \<le> Max (set (concat x)))) y"
  using assms(1) [unfolded resize_contract_def, rule_format, OF assms(2)] .

text \<open>
  What \<open>load_gray\<close> (in both scripts) does with a decoded picture of at least one
  pixel, for a positive \<open>max_side\<close> (below \<open>2 ^ 52\<close>, where the rounding of the
  divisions is at most one part in \<open>2 ^ 53\<close>). When the longer side exceeds
  \<open>max_side\<close> and one of the new sides it computes is zero (a thin picture),
  \<^verbatim>\<open>resize\<close> raises and so does \<open>load_gray\<close>. In every other case it returns a
  rectangular array of reals with at least one pixel, whose values all lie in
  \<open>[0, 1]\<close> and whose sides are at most \<open>max_side\<close>: the picture itself when it
  fits, and otherwise what \<^verbatim>\<open>resize\<close> gives for the new sides. A picture that
  fits is never resized, and a picture whose longer side is at most \<open>max_side / 2\<close>
  times the shorter one is never refused. \<^verbatim>\<open>resize\<close> is taken to raise for a shape
  without pixels, and otherwise to give the shape asked for within the range of its
  input.
\<close>

theorem load_gray_normalised:
  assumes rc: "resize_contract L" and r: "rect arr"
    and hw: "0 < height arr" "0 < width arr" and ms: "0 < max_side" "max_side < 2 ^ 52"
  shows "let h = height arr; w = width arr;
             scale = int_div (int (max h w)) (int max_side);
             new_h = nat (ftrunc (int_div_float (int h) scale));
             new_w = nat (ftrunc (int_div_float (int w) scale));
             refused = (fgt_one scale \<and> (new_h = 0 \<or> new_w = 0))
         in (refused \<longrightarrow>
               isl (load_gray L arr max_side) \<and> isl (load_gray_regen L arr max_side))
          \<and> (\<not> refused \<longrightarrow>
               (\<exists>x. load_gray L arr max_side = Inr x \<and> load_gray_regen L arr max_side = Inr x
                  \<and> rect x \<and> in_unit x
                  \<and> height x = (if fgt_one scale then new_h else h)
                  \<and> width x = (if fgt_one scale then new_w else w)
                  \<and> 0 < height x \<and> 0 < width x
                  \<and> max (height x) (width x) \<le> max_side))
          \<and> (max h w \<le> max_side \<longrightarrow> \<not> fgt_one scale)
          \<and> (2 * max h w \<le> min h w * max_side \<longrightarrow> \<not> refused)"
proof -
  define sc where "sc = int_div (int (max (height arr) (width arr))) (int max_side)"
  define nh where "nh = nat (ftrunc (int_div_float (int (height arr)) sc))"
  define nw where "nw = nat (ftrunc (int_div_float (int (width arr)) sc))"
  define x0 where "x0 = rescale_intensity (map (map (\<lambda>v. real (unat v) / 255)) arr) (0, 1)"
  have "same_shape x0 arr"
    unfolding x0_def using same_shape_rescale same_shape_map same_shape_trans by blast
  with r have rx: "rect x0" and hx: "height x0 = height arr" and wx: "width x0 = width arr"
    by (simp_all add: same_shape_rect)
  have iu: "in_unit x0"
    unfolding x0_def by (rule in_unit_rescale)
  from rx hx wx hw have ne: "concat x0 \<noteq> []"
    by (intro rect_nonempty) simp_all
  have lg: "load_gray L arr max_side = (if fgt_one sc then resize L x0 (nh, nw) else Inr x0)"
    using ms(1)
    unfolding load_gray_def Let_def x0_def [symmetric] hx wx sc_def [symmetric]
      nh_def [symmetric] nw_def [symmetric]
    by simp
  have mpos: "0 < int (max (height arr) (width arr))"
    using hw by simp
  have Mpos: "0 < int max_side" and Mlt: "int max_side < 2 ^ 52"
    using ms by simp_all
  have side_le: "nat (ftrunc (int_div_float (int k) sc)) \<le> max_side"
    if "k \<le> max (height arr) (width arr)" and "fgt_one sc" for k
  proof -
    have "ftrunc (int_div_float (int k) sc) \<le> int max_side"
      unfolding sc_def using that mpos Mpos Mlt
      by (intro new_side_le) (simp_all add: sc_def)
    then show ?thesis by simp
  qed
  have side_pos: "0 < nat (ftrunc (int_div_float (int k) sc))"
    if "0 < k" and "2 * max (height arr) (width arr) \<le> k * max_side" and "fgt_one sc" for k
  proof -
    from that(2) have "int (2 * max (height arr) (width arr)) \<le> int (k * max_side)"
      by (simp only: of_nat_le_iff)
    then have "2 * int (max (height arr) (width arr)) \<le> int k * int max_side"
      by simp
    then have "1 \<le> ftrunc (int_div_float (int k) sc)"
      unfolding sc_def using that(1,3) mpos Mpos Mlt
      by (intro new_side_pos) (simp_all add: sc_def)
    then show ?thesis by simp
  qed
  have A: "fgt_one sc \<and> (nh = 0 \<or> nw = 0) \<longrightarrow>
      isl (load_gray L arr max_side) \<and> isl (load_gray_regen L arr max_side)"
  proof
    assume a: "fgt_one sc \<and> (nh = 0 \<or> nw = 0)"
    with resize_contract_at [OF rc ne, of nh nw] have "isl (resize L x0 (nh, nw))"
      by simp
    with a show "isl (load_gray L arr max_side) \<and> isl (load_gray_regen L arr max_side)"
      by (simp add: load_gray_regen_eq lg)
  qed
  have B: "\<not> (fgt_one sc \<and> (nh = 0 \<or> nw = 0)) \<longrightarrow>
      (\<exists>x. load_gray L arr max_side = Inr x \<and> load_gray_regen L arr max_side = Inr x
         \<and> rect x \<and> in_unit x
         \<and> height x = (if fgt_one sc then nh else height arr)
         \<and> width x = (if fgt_one sc then nw else width arr)
         \<and> 0 < height x \<and> 0 < width x
         \<and> max (height x) (width x) \<le> max_side)"
  proof
    assume n: "\<not> (fgt_one sc \<and> (nh = 0 \<or> nw = 0))"
    show "\<exists>x. load_gray L arr max_side = Inr x \<and> load_gray_regen L arr max_side = Inr x
         \<and> rect x \<and> in_unit x
         \<and> height x = (if fgt_one sc then nh else height arr)
         \<and> width x = (if fgt_one sc then nw else width arr)
         \<and> 0 < height x \<and> 0 < width x
         \<and> max (height x) (width x) \<le> max_side"
    proof (cases "fgt_one sc")
      case True
      with n have nz: "0 < nh" "0 < nw" by simp_all
      with resize_contract_at [OF rc ne, of nh nw] obtain y
        where y: "resize L x0 (nh, nw) = Inr y" and yh: "height y = nh"
          and yw: "list_all (\<lambda>row. length row = nw) y"
          and yv: "list_all (list_all (\<lambda>v. Min (set (concat x0)) \<le> v
                \<and> v \<le> Max (set (concat x0)))) y"
        by auto
      have nh_le: "nh \<le> max_side"
        unfolding nh_def using True by (intro side_le) simp_all
      have nw_le: "nw \<le> max_side"
        unfolding nw_def using True by (intro side_le) simp_all
      from yh nz have yne: "y \<noteq> []"
        by (auto simp: height_def)
      have wy: "width y = nw"
        using yw yne by (cases y) (simp_all add: width_def)
      have ry: "rect y"
        using yw by (cases y) (simp_all add: rect_def width_def list_all_iff)
      have lo: "0 \<le> Min (set (concat x0))" and hi: "Max (set (concat x0)) \<le> 1"
        using iu ne by (simp_all add: in_unit_iff del: set_concat)
      have "in_unit y"
        unfolding in_unit_iff
      proof
        fix v assume "v \<in> set (concat y)"
        with yv have "Min (set (concat x0)) \<le> v \<and> v \<le> Max (set (concat x0))"
          by (auto simp: list_all_iff)
        with lo hi show "0 \<le> v \<and> v \<le> 1" by linarith
      qed
      with True y ry yh wy nh_le nw_le nz show ?thesis
        by (simp add: load_gray_regen_eq lg)
    next
      case False
      have "int (max (height arr) (width arr)) \<le> int max_side"
        using False mpos Mpos Mlt unfolding sc_def by (intro no_resize_small) simp_all
      then have "max (height arr) (width arr) \<le> max_side"
        by (simp only: of_nat_le_iff)
      with False rx iu hx wx hw show ?thesis
        by (simp add: load_gray_regen_eq lg)
    qed
  qed
  have C: "max (height arr) (width arr) \<le> max_side \<longrightarrow> \<not> fgt_one sc"
  proof
    assume "max (height arr) (width arr) \<le> max_side"
    then have "int (max (height arr) (width arr)) \<le> int max_side"
      by (simp only: of_nat_le_iff)
    with mpos show "\<not> fgt_one sc"
      unfolding sc_def by (intro fits_no_resize)
  qed
  have D: "2 * max (height arr) (width arr) \<le> min (height arr) (width arr) * max_side \<longrightarrow>
      \<not> (fgt_one sc \<and> (nh = 0 \<or> nw = 0))"
  proof
    assume wide: "2 * max (height arr) (width arr) \<le> min (height arr) (width arr) * max_side"
    have "min (height arr) (width arr) * max_side \<le> height arr * max_side"
      "min (height arr) (width arr) * max_side \<le> width arr * max_side"
      by simp_all
    with wide have "2 * max (height arr) (width arr) \<le> height arr * max_side"
      and "2 * max (height arr) (width arr) \<le> width arr * max_side"
      by linarith+
    then have "fgt_one sc \<Longrightarrow> 0 < nh \<and> 0 < nw"
      unfolding nh_def nw_def using hw by (intro conjI side_pos)
    then show "\<not> (fgt_one sc \<and> (nh = 0 \<or> nw = 0))"
      by auto
  qed
  show ?thesis
    unfolding Let_def sc_def [symmetric] nh_def [symmetric] nw_def [symmetric]
    using A B C D by blast
qed

lemma flat_resize: "resize_contract flat_skimage"
proof -
  have "Min (set (concat x)) \<le> hd (concat x) \<and> hd (concat x) \<le> Max (set (concat x))"
    if "concat x \<noteq> []" for x :: image
    using that by (simp del: set_concat)
  then show ?thesis
    by (auto simp: resize_contract_def flat_skimage_def height_def list_all_iff
        simp del: set_concat)
qed

text \<open>
  Instances. Two rows of nine black pixels at \<open>max_side = 7\<close>: the scale \<open>9 / 7\<close> is
  rounded, \<open>9 / scale\<close> falls just below 7, and the picture becomes one row of six.
  One row of four pixels at \<open>max_side = 2\<close>: the new height is
  \<open>int(1 / 2.0) = 0\<close> and \<open>load_gray\<close> raises. A picture of two by two fits and is
  only normalised.
\<close>

lemma int_div_9_7: "int_div 9 7 = (5790342378047781, - 52)"
  by code_simp

lemma side_9_7:
  "fgt_one (5790342378047781, - 52)"
  "ftrunc (int_div_float 9 (5790342378047781, - 52)) = 6"
  "ftrunc (int_div_float 2 (5790342378047781, - 52)) = 1"
  by code_simp+

lemma int_div_4_2: "int_div 4 2 = (4503599627370496, - 51)"
  by code_simp

lemma side_4_2:
  "fgt_one (4503599627370496, - 51)"
  "ftrunc (int_div_float 1 (4503599627370496, - 51)) = 0"
  "ftrunc (int_div_float 4 (4503599627370496, - 51)) = 2"
  by code_simp+

lemma int_div_small:
  "\<not> fgt_one (int_div 2 512)"
  "\<not> fgt_one (int_div 3 512)"
  by code_simp+

theorem load_gray_normalised_witness:
  "resize_contract flat_skimage
   \<and> rect (replicate 2 (replicate 9 (0 :: 8 word)))
   \<and> int_div 9 7 = (5790342378047781, - 52)
   \<and> nat (ftrunc (int_div_float 9 (int_div 9 7))) = 6
   \<and> load_gray flat_skimage (replicate 2 (replicate 9 0)) 7 = Inr [replicate 6 0]
   \<and> load_gray_regen flat_skimage (replicate 2 (replicate 9 0)) 7 = Inr [replicate 6 0]
   \<and> rect [replicate 6 (0 :: real)] \<and> in_unit [replicate 6 0]
   \<and> max (height [replicate 6 (0 :: real)]) (width [replicate 6 (0 :: real)]) \<le> 7
   \<and> rect [[0, 0, 0, 0 :: 8 word]]
   \<and> nat (ftrunc (int_div_float 1 (int_div 4 2))) = 0
   \<and> isl (load_gray flat_skimage [[0, 0, 0, 0]] 2)
   \<and> isl (load_gray_regen flat_skimage [[0, 0, 0, 0]] 2)
   \<and> rect [[0, 51], [102, 255 :: 8 word]]
   \<and> load_gray flat_skimage [[0, 51], [102, 255]] 512 = Inr [[0, 1 / 5], [2 / 5, 1]]
   \<and> load_gray_regen flat_skimage [[0, 51], [102, 255]] 512 = Inr [[0, 1 / 5], [2 / 5, 1]]
   \<and> in_unit [[0, 1 / 5], [2 / 5, 1]]
   \<and> max (height [[0, 1 / 5], [2 / 5, 1 :: real]]) (width [[0, 1 / 5], [2 / 5, 1 :: real]]) \<le> 512"
proof -
  let ?A = "replicate 2 (replicate 9 (0 :: 8 word))"
  let ?B = "[[0, 0, 0, 0 :: 8 word]]"
  let ?C = "[[0, 51], [102, 255 :: 8 word]]"
  have A: "?A = [replicate 9 0, replicate 9 0]"
    by (simp add: numeral_2_eq_2)
  have rA: "rect ?A" and rB: "rect ?B" and rC: "rect ?C"
    unfolding A by (simp_all add: rect_def width_def)
  have sA: "height ?A = 2" "width ?A = 9" and sB: "height ?B = 1" "width ?B = 4"
    and sC: "height ?C = 2" "width ?C = 2"
    unfolding A by (simp_all add: height_def width_def)
  have eA: "load_gray flat_skimage ?A 7 = Inr [replicate 6 0]"
    unfolding A
    by (simp add: load_gray_def flat_skimage_def rescale_intensity_def np_clip_def height_def
      width_def Let_def int_div_9_7 side_9_7)
  have eC: "load_gray flat_skimage ?C 512 = Inr [[0, 1 / 5], [2 / 5, 1]]"
    by (simp add: load_gray_def flat_skimage_def rescale_intensity_def np_clip_def height_def
      width_def Let_def int_div_small)
  have nA: "nat (ftrunc (int_div_float 9 (int_div 9 7))) = 6"
    by (simp add: int_div_9_7 side_9_7)
  have nB: "nat (ftrunc (int_div_float 1 (int_div 4 2))) = 0"
    by (simp add: int_div_4_2 side_4_2)
  have tA: "\<exists>x. load_gray flat_skimage ?A 7 = Inr x \<and> load_gray_regen flat_skimage ?A 7 = Inr x
      \<and> rect x \<and> in_unit x \<and> max (height x) (width x) \<le> 7"
    using load_gray_normalised [OF flat_resize rA, of 7]
    by (auto simp: Let_def sA int_div_9_7 side_9_7)
  have tB: "isl (load_gray flat_skimage ?B 2) \<and> isl (load_gray_regen flat_skimage ?B 2)"
    using load_gray_normalised [OF flat_resize rB, of 2]
    by (simp add: Let_def sB int_div_4_2 side_4_2)
  have tC: "\<exists>x. load_gray flat_skimage ?C 512 = Inr x \<and> load_gray_regen flat_skimage ?C 512 = Inr x
      \<and> rect x \<and> in_unit x \<and> max (height x) (width x) \<le> 512"
    using load_gray_normalised [OF flat_resize rC, of 512]
    by (auto simp: Let_def sC int_div_small)
  from tA eA have cA: "load_gray_regen flat_skimage ?A 7 = Inr [replicate 6 0]"
    "rect [replicate 6 (0 :: real)]" "in_unit [replicate 6 0]"
    "max (height [replicate 6 (0 :: real)]) (width [replicate 6 (0 :: real)]) \<le> 7"
    by auto
  from tC eC have cC: "load_gray_regen flat_skimage ?C 512 = Inr [[0, 1 / 5], [2 / 5, 1]]"
    "in_unit [[0, 1 / 5], [2 / 5, 1]]"
    "max (height [[0, 1 / 5], [2 / 5, 1 :: real]]) (width [[0, 1 / 5], [2 / 5, 1 :: real]]) \<le> 512"
    by auto
  show ?thesis
    by (intro conjI) (rule flat_resize rA rB rC int_div_9_7 nA nB eA eC cA cC
        tB [THEN conjunct1] tB [THEN conjunct2])+
qed

lemma int_div_513_512: "int_div 513 512 = (4512395720392704, - 52)"
  by code_simp

lemma side_513_512:
  "fgt_one (4512395720392704, - 52)"
  "ftrunc (int_div_float 1 (4512395720392704, - 52)) = 0"
  "ftrunc (int_div_float 513 (4512395720392704, - 52)) = 512"
  by code_simp+

text \<open>
  C1 fails on a thin picture. For one row of 513 pixels and the default
  \<open>max_side = 512\<close>, \<open>scale\<close> is \<open>513 / 512\<close>, the new height is
  \<open>int(1 / scale) = 0\<close>, and \<open>load_gray\<close> (in both scripts) hands the shape
  \<open>(0, 512)\<close> to \<^verbatim>\<open>resize\<close>, whatever the library: no array with a
  pixel can come back, and with a \<^verbatim>\<open>resize\<close> that refuses such a shape
  \<open>load_gray\<close> raises instead of returning an image.
\<close>

theorem load_gray_thin_picture:
  "load_gray L [replicate 513 0] 512 = resize L [replicate 513 0] (0, 512)
   \<and> load_gray_regen L [replicate 513 0] 512 = resize L [replicate 513 0] (0, 512)
   \<and> isl (load_gray flat_skimage [replicate 513 0] 512)
   \<and> isl (load_gray_regen flat_skimage [replicate 513 0] 512)"
proof -
  have e: "load_gray L [replicate 513 0] 512 = resize L [replicate 513 0] (0, 512)" for L
    by (simp add: load_gray_def rescale_intensity_def np_clip_def height_def width_def Let_def
        int_div_513_512 side_513_512)
  have "isl (resize flat_skimage [replicate 513 0] (0, 512))"
    by (simp add: flat_skimage_def)
  then show ?thesis
    by (simp add: load_gray_regen_eq e)
qed

subsection \<open>The edge maps\<close>

text \<open>
  C6, as the code has it. The \<open>sobel\<close> entry is the Sobel response and the
  \<open>laplace\<close> entry the absolute Laplacian, each passed through
  \<open>rescale_intensity\<close> with the output range \<open>(0, 1)\<close>: its values lie in
  \<open>[0, 1]\<close>, and they reach both 0 and 1 when the response is not one single
  intensity. The \<open>canny_s12\<close> entry is the edge mask at \<open>sigma = 1.2\<close> with
  values 0 and 1 only.
\<close>

theorem edge_entries:
  "map_of (spatial_filters L x) ''sobel'' = Some (rescale_intensity (sobel L x) (0, 1))
   \<and> in_unit (rescale_intensity (sobel L x) (0, 1))
   \<and> (\<not> flat (sobel L x) \<longrightarrow> spans_unit (rescale_intensity (sobel L x) (0, 1)))
   \<and> map_of (spatial_filters L x) ''laplace''
        = Some (rescale_intensity (np_abs (laplace L x)) (0, 1))
   \<and> in_unit (rescale_intensity (np_abs (laplace L x)) (0, 1))
   \<and> (\<not> flat (np_abs (laplace L x))
        \<longrightarrow> spans_unit (rescale_intensity (np_abs (laplace L x)) (0, 1)))
   \<and> map_of (spatial_filters L x) ''canny_s12'' = Some (astype_float32 (canny L x (6 / 5)))
   \<and> binary (astype_float32 (canny L x (6 / 5)))"
  by (simp add: spatial_filters_def in_unit_rescale spans_rescale binary_astype)

text \<open>
  An instance: a Sobel response \<open>[[0, 1], [1, 2]]\<close> is stretched to
  \<open>[[0, 1/2], [1/2, 1]]\<close>, which spans \<open>[0, 1]\<close>.
\<close>

theorem edge_entries_witness:
  "\<not> flat [[0, 1], [1, 2]]
   \<and> spans_unit (rescale_intensity [[0, 1], [1, 2]] (0, 1))
   \<and> rescale_intensity [[0, 1], [1, 2]] (0, 1) = [[0, 1 / 2], [1 / 2, 1]]
   \<and> \<not> flat (np_abs [[- 3, 1], [1, 1]])
   \<and> spans_unit (rescale_intensity (np_abs [[- 3, 1], [1, 1]]) (0, 1))"
proof -
  let ?L = "flat_skimage\<lparr>sobel := (\<lambda>x. [[0, 1], [1, 2]]), laplace := (\<lambda>x. [[- 3, 1], [1, 1]])\<rparr>"
  have f1: "\<not> flat [[0, 1], [1, 2]]"
    by (simp add: flat_def)
  have f2: "\<not> flat (np_abs [[- 3, 1], [1, 1]])"
    by (simp add: flat_def np_abs_def)
  have r: "rescale_intensity [[0, 1], [1, 2]] (0, 1) = [[0, 1 / 2], [1 / 2, 1]]"
    by (simp add: rescale_intensity_def np_clip_def Let_def)
  show ?thesis
    using edge_entries [of ?L "[[0, 0], [1, 1]]"] f1 f2 r
    by simp
qed

text \<open>
  The claim as written fails on a picture of one single intensity: the black picture
  is normalised to the black image, its Sobel response vanishes, and the \<open>sobel\<close>
  entry is black too, so its values do not span \<open>[0, 1]\<close>.
\<close>

theorem edge_entries_counterexample:
  "load_gray flat_skimage [[0, 0, 0], [0, 0, 0], [0, 0, 0]] 512
     = Inr [[0, 0, 0], [0, 0, 0], [0, 0, 0]]
   \<and> map_of (spatial_filters flat_skimage [[0, 0, 0], [0, 0, 0], [0, 0, 0]]) ''sobel''
     = Some [[0, 0, 0], [0, 0, 0], [0, 0, 0]]
   \<and> \<not> spans_unit [[0, 0, 0], [0, 0, 0], [0, 0, 0]]"
  by (simp add: load_gray_def spatial_filters_def flat_skimage_def rescale_intensity_def
      np_clip_def height_def width_def Let_def spans_unit_def int_div_small)

section \<open>Idempotence of opening and closing\<close>

subsection \<open>Reflection at the border\<close>

lemma reflect_less: "0 < n \<Longrightarrow> reflect n i < n"
proof -
  assume n: "0 < n"
  let ?m = "i mod (2 * int n)"
  from n have "0 \<le> ?m" "?m < 2 * int n" by simp_all
  then show ?thesis by (auto simp: reflect_def Let_def)
qed

lemma reflect_id: "p < n \<Longrightarrow> reflect n (int p) = p"
  by (simp add: reflect_def Let_def)

lemma reflect_sym:
  assumes p: "p < n" and q: "q < n" and eq: "q = reflect n (int p + a)"
  shows "p = reflect n (int q + a) \<or> p = reflect n (int q - a)"
proof -
  let ?M = "2 * int n"
  let ?m = "(int p + a) mod ?M"
  from p have M: "0 < ?M" by simp
  have m: "0 \<le> ?m" "?m < ?M" using M by simp_all
  show ?thesis
  proof (cases "?m < int n")
    case True
    with eq m have iq: "int q = ?m" by (simp add: reflect_def Let_def)
    have "(int q - a) mod ?M = (?m - a) mod ?M" using iq by simp
    also have "\<dots> = (int p + a - a) mod ?M" by (simp add: mod_diff_left_eq)
    also have "\<dots> = int p" using p by simp
    finally have "(int q - a) mod ?M = int p" .
    with p have "reflect n (int q - a) = p" by (simp add: reflect_def Let_def)
    then show ?thesis by simp
  next
    case False
    with eq m have iq: "int q = ?M - 1 - ?m" by (simp add: reflect_def Let_def)
    have "(int q + a) mod ?M = (?M - 1 - ?m + a) mod ?M" using iq by simp
    also have "\<dots> = (?M - 1 + a - ?m) mod ?M" by (simp add: algebra_simps)
    also have "\<dots> = (?M - 1 + a - (int p + a)) mod ?M" by (simp add: mod_diff_right_eq)
    also have "\<dots> = (?M - 1 - int p) mod ?M" by (simp add: algebra_simps)
    also have "\<dots> = ?M - 1 - int p" using p by simp
    finally have "(int q + a) mod ?M = ?M - 1 - int p" .
    with p have "reflect n (int q + a) = p" by (simp add: reflect_def Let_def)
    then show ?thesis by simp
  qed
qed


subsection \<open>Abstract idempotence\<close>

lemma local_opening_idem:
  fixes g :: "nat \<times> nat \<Rightarrow> 'a::linorder"
  assumes fin: "\<And>p. p \<in> Dom \<Longrightarrow> finite (N p)"
    and self: "\<And>p. p \<in> Dom \<Longrightarrow> p \<in> N p"
    and sub: "\<And>p. p \<in> Dom \<Longrightarrow> N p \<subseteq> Dom"
    and sym: "\<And>p q. p \<in> Dom \<Longrightarrow> q \<in> N p \<Longrightarrow> p \<in> N q"
    and p: "p \<in> Dom"
  shows "local_max N (local_min N (local_max N (local_min N g))) p
       = local_max N (local_min N g) p"
proof -
  let ?e = "local_min N g"
  let ?o = "local_max N ?e"
  let ?e2 = "local_min N ?o"
  have ne: "N q \<noteq> {}" if "q \<in> Dom" for q using self [OF that] by auto
  have upper: "?e2 q \<le> ?o p" if "q \<in> N p" for q
  proof -
    have qd: "q \<in> Dom" using sub [OF p] that by blast
    from sym [OF p that] have "p \<in> N q" .
    then show ?thesis
      unfolding local_min_def [of N ?o q] using fin [OF qd] by (intro Min_le) auto
  qed
  have le: "local_max N ?e2 p \<le> ?o p"
    unfolding local_max_def [of N ?e2 p] using fin [OF p] ne [OF p] upper by simp
  have "?o p \<in> ?e ` N p"
    unfolding local_max_def [of N ?e p] using fin [OF p] ne [OF p] by (intro Max_in) auto
  then obtain q where q: "q \<in> N p" and oq: "?o p = ?e q" by auto
  have qd: "q \<in> Dom" using sub [OF p] q by blast
  have "?e q \<le> ?o s" if "s \<in> N q" for s
  proof -
    have sd: "s \<in> Dom" using sub [OF qd] that by blast
    from sym [OF qd that] have "q \<in> N s" .
    then show ?thesis
      unfolding local_max_def [of N ?e s] using fin [OF sd] by (intro Max_ge) auto
  qed
  then have "?e q \<le> ?e2 q"
    unfolding local_min_def [of N ?o q] using fin [OF qd] ne [OF qd] by simp
  also have "?e2 q \<le> local_max N ?e2 p"
    unfolding local_max_def [of N ?e2 p] using fin [OF p] q by (intro Max_ge) auto
  finally have "?o p \<le> local_max N ?e2 p" using oq by simp
  with le show ?thesis by simp
qed

lemma local_closing_idem:
  fixes g :: "nat \<times> nat \<Rightarrow> 'a::linorder"
  assumes fin: "\<And>p. p \<in> Dom \<Longrightarrow> finite (N p)"
    and self: "\<And>p. p \<in> Dom \<Longrightarrow> p \<in> N p"
    and sub: "\<And>p. p \<in> Dom \<Longrightarrow> N p \<subseteq> Dom"
    and sym: "\<And>p q. p \<in> Dom \<Longrightarrow> q \<in> N p \<Longrightarrow> p \<in> N q"
    and p: "p \<in> Dom"
  shows "local_min N (local_max N (local_min N (local_max N g))) p
       = local_min N (local_max N g) p"
proof -
  let ?d = "local_max N g"
  let ?c = "local_min N ?d"
  let ?d2 = "local_max N ?c"
  have ne: "N q \<noteq> {}" if "q \<in> Dom" for q using self [OF that] by auto
  have lower: "?c p \<le> ?d2 q" if "q \<in> N p" for q
  proof -
    have qd: "q \<in> Dom" using sub [OF p] that by blast
    from sym [OF p that] have "p \<in> N q" .
    then show ?thesis
      unfolding local_max_def [of N ?c q] using fin [OF qd] by (intro Max_ge) auto
  qed
  have ge: "?c p \<le> local_min N ?d2 p"
    unfolding local_min_def [of N ?d2 p] using fin [OF p] ne [OF p] lower by simp
  have "?c p \<in> ?d ` N p"
    unfolding local_min_def [of N ?d p] using fin [OF p] ne [OF p] by (intro Min_in) auto
  then obtain q where q: "q \<in> N p" and cq: "?c p = ?d q" by auto
  have qd: "q \<in> Dom" using sub [OF p] q by blast
  have "?c s \<le> ?d q" if "s \<in> N q" for s
  proof -
    have sd: "s \<in> Dom" using sub [OF qd] that by blast
    from sym [OF qd that] have "q \<in> N s" .
    then show ?thesis
      unfolding local_min_def [of N ?d s] using fin [OF sd] by (intro Min_le) auto
  qed
  then have "?d2 q \<le> ?d q"
    unfolding local_max_def [of N ?c q] using fin [OF qd] ne [OF qd] by simp
  moreover have "local_min N ?d2 p \<le> ?d2 q"
    unfolding local_min_def [of N ?d2 p] using fin [OF p] q by (intro Min_le) auto
  ultimately have "local_min N ?d2 p \<le> ?c p" using cq by simp
  with ge show ?thesis by simp
qed


subsection \<open>Tabulated images\<close>

lemma height_tabulate2 [simp]: "height (tabulate2 h w f) = h"
  by (simp add: height_def tabulate2_def)

lemma width_tabulate2 [simp]: "0 < h \<Longrightarrow> width (tabulate2 h w f) = w"
  by (cases h) (simp_all add: width_def tabulate2_def upt_conv_Cons del: upt_Suc)

lemma pix_tabulate2 [simp]: "i < h \<Longrightarrow> j < w \<Longrightarrow> pix (tabulate2 h w f) i j = f i j"
  by (simp add: pix_def tabulate2_def)

lemma tabulate2_cong:
  "(\<And>i j. i < h \<Longrightarrow> j < w \<Longrightarrow> f i j = g i j) \<Longrightarrow> tabulate2 h w f = tabulate2 h w g"
  by (simp add: tabulate2_def)

lemma tabulate2_0 [simp]: "tabulate2 0 w f = []"
  by (simp add: tabulate2_def)

subsection \<open>The disk\<close>

lemma set_offsets_disk:
  "set (offsets (disk r)) =
     {(a, b). - int r \<le> a \<and> a \<le> int r \<and> - int r \<le> b \<and> b \<le> int r
        \<and> b\<^sup>2 + a\<^sup>2 \<le> (int r)\<^sup>2}"
proof -
  have d: "(2 * r + 1) div 2 = r" by simp
  have "set (offsets (disk r)) =
      {(int a - int r, int b - int r) | a b. a < 2 * r + 1 \<and> b < 2 * r + 1
         \<and> (int b - int r)\<^sup>2 + (int a - int r)\<^sup>2 \<le> (int r)\<^sup>2}"
    unfolding offsets_def disk_def
    by (auto simp: d simp del: upt_Suc)
  also have "\<dots> = {(a, b). - int r \<le> a \<and> a \<le> int r \<and> - int r \<le> b \<and> b \<le> int r
        \<and> b\<^sup>2 + a\<^sup>2 \<le> (int r)\<^sup>2}"
  proof (intro set_eqI iffI; clarify)
    fix a b
    assume "a < 2 * r + 1" "b < 2 * r + 1"
      "(int b - int r)\<^sup>2 + (int a - int r)\<^sup>2 \<le> (int r)\<^sup>2"
    then show "- int r \<le> int a - int r \<and> int a - int r \<le> int r
        \<and> - int r \<le> int b - int r \<and> int b - int r \<le> int r
        \<and> (int b - int r)\<^sup>2 + (int a - int r)\<^sup>2 \<le> (int r)\<^sup>2"
      by auto
  next
    fix a b :: int
    assume h: "- int r \<le> a" "a \<le> int r" "- int r \<le> b" "b \<le> int r"
      "b\<^sup>2 + a\<^sup>2 \<le> (int r)\<^sup>2"
    then have "a = int (nat (a + int r)) - int r" "b = int (nat (b + int r)) - int r"
      "nat (a + int r) < 2 * r + 1" "nat (b + int r) < 2 * r + 1"
      by auto
    with h show "\<exists>a' b'. (a, b) = (int a' - int r, int b' - int r) \<and> a' < 2 * r + 1
        \<and> b' < 2 * r + 1 \<and> (int b' - int r)\<^sup>2 + (int a' - int r)\<^sup>2 \<le> (int r)\<^sup>2"
      by (intro exI [of _ "nat (a + int r)"] exI [of _ "nat (b + int r)"]) simp
  qed
  finally show ?thesis .
qed

lemma disk_centre: "(0, 0) \<in> set (offsets (disk r))"
  by (simp add: set_offsets_disk)

lemma disk_symmetric:
  "(a, b) \<in> set (offsets (disk r)) \<Longrightarrow>
   (a' = a \<or> a' = - a) \<Longrightarrow> (b' = b \<or> b' = - b) \<Longrightarrow> (a', b') \<in> set (offsets (disk r))"
  by (auto simp: set_offsets_disk)


subsection \<open>Neighbourhoods under the disk\<close>

lemma nbhd_finite: "finite D \<Longrightarrow> finite (nbhd h w D p)"
  by (simp add: nbhd_def)

lemma nbhd_in_range:
  assumes "fst p < h" "snd p < w" "q \<in> nbhd h w D p"
  shows "fst q < h \<and> snd q < w"
proof -
  from assms have "0 < h" "0 < w" by auto
  with assms(3) show ?thesis
    by (auto simp: nbhd_def reflect_less)
qed

lemma nbhd_self:
  assumes "fst p < h" "snd p < w"
  shows "p \<in> nbhd h w (set (offsets (disk r))) p"
proof -
  have "p = (\<lambda>(a, b). (reflect h (int (fst p) + a), reflect w (int (snd p) + b))) (0, 0)"
    using assms by (simp add: reflect_id)
  then show ?thesis
    unfolding nbhd_def using disk_centre [of r] by (metis (no_types, lifting) image_eqI)
qed

lemma nbhd_sym:
  assumes p: "fst p < h" "snd p < w" and q: "q \<in> nbhd h w (set (offsets (disk r))) p"
  shows "p \<in> nbhd h w (set (offsets (disk r))) q"
proof -
  let ?D = "set (offsets (disk r))"
  from q obtain a b where ab: "(a, b) \<in> ?D"
    and q1: "fst q = reflect h (int (fst p) + a)" and q2: "snd q = reflect w (int (snd p) + b)"
    by (auto simp: nbhd_def)
  from nbhd_in_range [OF p q] have qr: "fst q < h" "snd q < w" by simp_all
  from reflect_sym [OF p(1) qr(1) q1] obtain a' where a': "a' = a \<or> a' = - a"
    and pa: "fst p = reflect h (int (fst q) + a')"
    by (metis add.commute uminus_add_conv_diff)
  from reflect_sym [OF p(2) qr(2) q2] obtain b' where b': "b' = b \<or> b' = - b"
    and pb: "snd p = reflect w (int (snd q) + b')"
    by (metis add.commute uminus_add_conv_diff)
  from disk_symmetric [OF ab a' b'] have "(a', b') \<in> ?D" .
  moreover have "p = (\<lambda>(a, b). (reflect h (int (fst q) + a), reflect w (int (snd q) + b))) (a', b')"
    using pa pb by (simp add: prod_eq_iff)
  ultimately show ?thesis
    unfolding nbhd_def by (metis (no_types, lifting) image_eqI)
qed

subsection \<open>Erosion and dilation as local minimum and maximum\<close>

lemma set_window:
  "set (window x se i j) =
     (\<lambda>(p, q). pix x p q) ` nbhd (height x) (width x) (set (offsets se)) (i, j)"
  by (auto simp: window_def nbhd_def image_iff split: prod.splits)

lemma erosion_pix:
  "erosion x se = tabulate2 (height x) (width x)
     (\<lambda>i j. local_min (nbhd (height x) (width x) (set (offsets se))) (\<lambda>(p, q). pix x p q) (i, j))"
  by (simp add: erosion_def set_window local_min_def)

lemma dilation_pix:
  "dilation x se = tabulate2 (height x) (width x)
     (\<lambda>i j. local_max (nbhd (height x) (width x) (set (offsets se))) (\<lambda>(p, q). pix x p q) (i, j))"
  by (simp add: dilation_def set_window local_max_def)

lemma pix_image_tab:
  assumes "i < h" "j < w"
  shows "(\<lambda>(p, q). pix (tabulate2 h w (\<lambda>i j. g (i, j))) p q) ` nbhd h w D (i, j)
       = g ` nbhd h w D (i, j)"
proof (rule image_cong [OF refl])
  fix q assume "q \<in> nbhd h w D (i, j)"
  with assms nbhd_in_range [of "(i, j)" h w q D] have "fst q < h" "snd q < w" by simp_all
  then show "(case q of (p, q) \<Rightarrow> pix (tabulate2 h w (\<lambda>i j. g (i, j))) p q) = g q"
    by (cases q) simp
qed

lemma erosion_tab:
  "erosion (tabulate2 h w (\<lambda>i j. g (i, j))) se
     = tabulate2 h w (\<lambda>i j. local_min (nbhd h w (set (offsets se))) g (i, j))"
proof (cases "h = 0")
  case True
  then show ?thesis by (simp add: erosion_def height_def)
next
  case False
  then show ?thesis
    unfolding erosion_pix
    by (auto intro!: tabulate2_cong simp: local_min_def pix_image_tab)
qed

lemma dilation_tab:
  "dilation (tabulate2 h w (\<lambda>i j. g (i, j))) se
     = tabulate2 h w (\<lambda>i j. local_max (nbhd h w (set (offsets se))) g (i, j))"
proof (cases "h = 0")
  case True
  then show ?thesis by (simp add: dilation_def height_def)
next
  case False
  then show ?thesis
    unfolding dilation_pix
    by (auto intro!: tabulate2_cong simp: local_max_def pix_image_tab)
qed

lemma opening_idempotent:
  fixes x :: "('a::linorder) list list"
  shows "opening_se (opening_se x (disk r)) (disk r) = opening_se x (disk r)"
proof -
  let ?h = "height x" and ?w = "width x"
  let ?N = "nbhd ?h ?w (set (offsets (disk r)))"
  let ?g = "\<lambda>(p, q). pix x p q"
  let ?Dom = "{p. fst p < ?h \<and> snd p < ?w}"
  have op: "opening_se x (disk r) = tabulate2 ?h ?w (\<lambda>i j. local_max ?N (local_min ?N ?g) (i, j))"
    unfolding opening_se_def erosion_pix [of x] dilation_tab ..
  have "opening_se (opening_se x (disk r)) (disk r)
      = tabulate2 ?h ?w (\<lambda>i j. local_max ?N (local_min ?N (local_max ?N (local_min ?N ?g))) (i, j))"
    unfolding op unfolding opening_se_def erosion_tab dilation_tab ..
  also have "\<dots> = tabulate2 ?h ?w (\<lambda>i j. local_max ?N (local_min ?N ?g) (i, j))"
  proof (rule tabulate2_cong)
    fix i j assume ij: "i < ?h" "j < ?w"
    show "local_max ?N (local_min ?N (local_max ?N (local_min ?N ?g))) (i, j)
        = local_max ?N (local_min ?N ?g) (i, j)"
    proof (rule local_opening_idem [where Dom = ?Dom])
      show "finite (?N p)" for p by (simp add: nbhd_finite)
      show "p \<in> ?N p" if "p \<in> ?Dom" for p using that by (simp add: nbhd_self)
      show "?N p \<subseteq> ?Dom" if "p \<in> ?Dom" for p
        using that nbhd_in_range [of p ?h ?w] by auto
      show "p \<in> ?N q" if "p \<in> ?Dom" "q \<in> ?N p" for p q
        using that by (simp add: nbhd_sym)
      show "(i, j) \<in> ?Dom" using ij by simp
    qed
  qed
  finally show ?thesis using op by simp
qed

lemma closing_idempotent:
  fixes x :: "('a::linorder) list list"
  shows "closing (closing x (disk r)) (disk r) = closing x (disk r)"
proof -
  let ?h = "height x" and ?w = "width x"
  let ?N = "nbhd ?h ?w (set (offsets (disk r)))"
  let ?g = "\<lambda>(p, q). pix x p q"
  let ?Dom = "{p. fst p < ?h \<and> snd p < ?w}"
  have cl: "closing x (disk r) = tabulate2 ?h ?w (\<lambda>i j. local_min ?N (local_max ?N ?g) (i, j))"
    unfolding closing_def dilation_pix [of x] erosion_tab ..
  have "closing (closing x (disk r)) (disk r)
      = tabulate2 ?h ?w (\<lambda>i j. local_min ?N (local_max ?N (local_min ?N (local_max ?N ?g))) (i, j))"
    unfolding cl unfolding closing_def erosion_tab dilation_tab ..
  also have "\<dots> = tabulate2 ?h ?w (\<lambda>i j. local_min ?N (local_max ?N ?g) (i, j))"
  proof (rule tabulate2_cong)
    fix i j assume ij: "i < ?h" "j < ?w"
    show "local_min ?N (local_max ?N (local_min ?N (local_max ?N ?g))) (i, j)
        = local_min ?N (local_max ?N ?g) (i, j)"
    proof (rule local_closing_idem [where Dom = ?Dom])
      show "finite (?N p)" for p by (simp add: nbhd_finite)
      show "p \<in> ?N p" if "p \<in> ?Dom" for p using that by (simp add: nbhd_self)
      show "?N p \<subseteq> ?Dom" if "p \<in> ?Dom" for p
        using that nbhd_in_range [of p ?h ?w] by auto
      show "p \<in> ?N q" if "p \<in> ?Dom" "q \<in> ?N p" for p q
        using that by (simp add: nbhd_sym)
      show "(i, j) \<in> ?Dom" using ij by simp
    qed
  qed
  finally show ?thesis using cl by simp
qed

text \<open>
  C3. The \<open>opening_r\<close> and \<open>closing_r\<close> entries of \<open>morph_filters\<close> are the
  opening and the closing by the disk of radius \<open>r\<close>, and both are idempotent: applied
  to its own result with the same disk, each gives that result again.
\<close>

theorem morph_idempotent:
  fixes x :: image
  shows "map_of (morph_filters x r) (''opening_r'' @ str_nat r) = Some (opening_se x (disk r))
   \<and> map_of (morph_filters x r) (''closing_r'' @ str_nat r) = Some (closing x (disk r))
   \<and> opening_se (opening_se x (disk r)) (disk r) = opening_se x (disk r)
   \<and> closing (closing x (disk r)) (disk r) = closing x (disk r)"
  by (simp add: morph_filters_def Let_def opening_idempotent closing_idempotent)

theorem morph_idempotent_witness:
  "opening_se [[1, 5, 3], [4, 0, 6], [7, 8, 9 :: real]] (disk 1) = [[1, 3, 3], [4, 0, 6], [4, 6, 6]]
   \<and> opening_se [[1, 3, 3], [4, 0, 6], [4, 6, 6 :: real]] (disk 1) = [[1, 3, 3], [4, 0, 6], [4, 6, 6]]
   \<and> closing [[1, 5, 3], [4, 0, 6], [7, 8, 9 :: real]] (disk 1) = [[5, 5, 5], [5, 5, 6], [7, 8, 9]]
   \<and> closing [[5, 5, 5], [5, 5, 6], [7, 8, 9 :: real]] (disk 1) = [[5, 5, 5], [5, 5, 6], [7, 8, 9]]"
proof -
  have o: "opening_se [[1, 5, 3], [4, 0, 6], [7, 8, 9 :: real]] (disk 1)
      = [[1, 3, 3], [4, 0, 6], [4, 6, 6]]"
    by code_simp
  have c: "closing [[1, 5, 3], [4, 0, 6], [7, 8, 9 :: real]] (disk 1)
      = [[5, 5, 5], [5, 5, 6], [7, 8, 9]]"
    by code_simp
  show ?thesis
    using morph_idempotent [of "[[1, 5, 3], [4, 0, 6], [7, 8, 9]]" 1] o c
    by simp
qed

end
